(* ===== verification/Prelude.thy ===== *)
theory Prelude
  imports Main "HOL-Library.FSet" "HOL-Library.Code_Target_Nat"
begin

text \<open>
  Shared vocabulary of the development.

  \<^item> \<open>panic\<close> and \<open>'a result\<close>: a Rust panic is a value. Every operation of the
    crate that can abort (an index past the end of a vector, a failed \<open>assert!\<close>,
    \<open>unwrap\<close> on \<open>None\<close>, an addition that overflows in a build with overflow
    checks) returns \<open>Inl\<close> of the panic, and \<open>bindr\<close> sequences two such operations
    so that the first panic wins, as unwinding does.
  \<^item> \<open>for_each\<close>: a \<open>for x in xs { body }\<close> loop whose body may panic, over an explicit
    loop state.
  \<^item> \<open>usize_max\<close>: the value of \<open>usize::max_value()\<close> on a 64-bit target. The crate's
    only arithmetic on \<open>usize\<close> is \<open>connected + 1\<close> on a degree, and degrees are bounded
    by the length of a vector; the component theories therefore model \<open>usize\<close> by
    \<open>nat\<close> and state the bound on the length where a theorem needs it. Theory
    \<open>Usize\<close> has the loop on 64-bit words and shows that it computes the same.
  \<^item> Three collections of facts that the component theories extend:
    \<open>result_simps\<close> (how \<open>bindr\<close> and \<open>for_each\<close> compute), \<open>bitset_simps\<close> (the
    bit-set interface unfolded to finite sets) and \<open>frame_simps\<close> (what an operation
    leaves unchanged).
  \<^item> Generic lemmas on lists, finite sets and sorted enumerations that more than one
    component needs.

  The theory imports \<open>Code_Target_Nat\<close> so that the closed instances of the theorems,
  which compare degrees with \<open>usize_max\<close>, evaluate with binary arithmetic.
\<close>

section \<open>Collections of facts\<close>

named_theorems result_simps "computation rules for panicking computations"
named_theorems bitset_simps "the bit-set interface as finite sets"
named_theorems frame_simps "fields and entries an operation leaves unchanged"

section \<open>Panics as values\<close>

datatype panic = IndexOutOfBounds | AssertionFailed | UnwrapNone | ArithmeticOverflow

type_synonym 'a result = "panic + 'a"

definition bindr :: "'a result \<Rightarrow> ('a \<Rightarrow> 'b result) \<Rightarrow> 'b result" where
  "bindr m f = (case m of Inl e \<Rightarrow> Inl e | Inr x \<Rightarrow> f x)"

definition usize_max :: nat where
  "usize_max = 2 ^ 64 - 1"

fun for_each :: "'a list \<Rightarrow> ('a \<Rightarrow> 's \<Rightarrow> 's result) \<Rightarrow> 's \<Rightarrow> 's result" where
  "for_each [] body s = Inr s"
| "for_each (x # xs) body s = bindr (body x s) (for_each xs body)"

subsection \<open>Sequencing\<close>

lemma bindr_Inl [simp, result_simps]: "bindr (Inl e) f = Inl e"
  by (simp add: bindr_def)

lemma bindr_Inr [simp, result_simps]: "bindr (Inr x) f = f x"
  by (simp add: bindr_def)

lemma bindr_eq_Inr_iff [result_simps]:
  "bindr m f = Inr y \<longleftrightarrow> (\<exists>x. m = Inr x \<and> f x = Inr y)"
  by (cases m) simp_all

lemma bindr_eq_Inl_iff [result_simps]:
  "bindr m f = Inl e \<longleftrightarrow> m = Inl e \<or> (\<exists>x. m = Inr x \<and> f x = Inl e)"
  by (cases m) simp_all

lemma bindr_cong [fundef_cong]:
  "m = m' \<Longrightarrow> (\<And>x. m' = Inr x \<Longrightarrow> f x = f' x) \<Longrightarrow> bindr m f = bindr m' f'"
  by (cases m') simp_all

lemma bindr_assoc: "bindr (bindr m f) g = bindr m (\<lambda>x. bindr (f x) g)"
  by (cases m) simp_all

lemma bindr_return [simp]: "bindr m Inr = m"
  by (cases m) simp_all

lemma bindr_split: "P (bindr m f) \<longleftrightarrow> (\<forall>e. m = Inl e \<longrightarrow> P (Inl e)) \<and> (\<forall>x. m = Inr x \<longrightarrow> P (f x))"
  by (cases m) simp_all

lemma bindr_split_asm:
  "P (bindr m f) \<longleftrightarrow> \<not> ((\<exists>e. m = Inl e \<and> \<not> P (Inl e)) \<or> (\<exists>x. m = Inr x \<and> \<not> P (f x)))"
  by (cases m) simp_all

lemmas bindr_splits = bindr_split bindr_split_asm

subsection \<open>Loops over a list\<close>

lemma for_each_append [result_simps]:
  "for_each (xs @ ys) body s = bindr (for_each xs body s) (for_each ys body)"
  by (induction xs arbitrary: s) (simp_all add: bindr_assoc cong: bindr_cong)

lemma for_each_cong [fundef_cong]:
  "xs = ys \<Longrightarrow> (\<And>x s. x \<in> set ys \<Longrightarrow> body x s = body' x s) \<Longrightarrow> s = t
    \<Longrightarrow> for_each xs body s = for_each ys body' t"
  by (induction ys arbitrary: xs s t) (auto cong: bindr_cong)

text \<open>A loop whose body never panics on the elements it meets is a \<open>fold\<close>.\<close>

lemma for_each_fold:
  assumes "\<And>x s. x \<in> set xs \<Longrightarrow> body x s = Inr (f x s)"
  shows "for_each xs body s = Inr (fold f xs s)"
  using assms by (induction xs arbitrary: s) simp_all

text \<open>
  The loop rule: an invariant that the body keeps, and under which the body does not
  panic, holds after the loop, and the loop does not panic.
\<close>

lemma for_each_rule:
  assumes "I s"
    and "\<And>x s. x \<in> set xs \<Longrightarrow> I s \<Longrightarrow> \<exists>s'. body x s = Inr s' \<and> I s'"
  shows "\<exists>s'. for_each xs body s = Inr s' \<and> I s'"
  using assms
proof (induction xs arbitrary: s)
  case Nil
  then show ?case by simp
next
  case (Cons x xs)
  from Cons.prems obtain s1 where s1: "body x s = Inr s1" "I s1"
    by (meson list.set_intros(1))
  from Cons.IH [OF s1(2)] Cons.prems(2) obtain s' where "for_each xs body s1 = Inr s'" "I s'"
    by (meson list.set_intros(2))
  with s1 show ?case by simp
qed

text \<open>The first element on which the body panics ends the loop with that panic.\<close>

lemma for_each_panic:
  assumes "for_each xs body s = Inr s1" and "body x s1 = Inl e"
  shows "for_each (xs @ x # ys) body s = Inl e"
  using assms by (simp add: for_each_append)

lemma for_each_unit:
  "for_each xs (\<lambda>x u. if P x then Inr () else Inl e) () = (if list_all P xs then Inr () else Inl e)"
  by (induction xs) simp_all

section \<open>Lists\<close>

lemma nth_list_update_if: "i < length xs \<Longrightarrow> xs[i := v] ! j = (if j = i then v else xs ! j)"
  by simp

lemma fold_list_update_length [simp]:
  "length (fold (\<lambda>i ys. ys[g i := h i ys]) is xs) = length xs"
  by (induction "is" arbitrary: xs) simp_all

text \<open>The first element with a property, as a decomposition of the list.\<close>

lemma find_append_none: "\<forall>b \<in> set pre. \<not> P b \<Longrightarrow> List.find P (pre @ ys) = List.find P ys"
  by (induction pre) simp_all

lemma find_Some_split:
  "List.find P xs = Some a \<longleftrightarrow>
    (\<exists>pre post. xs = pre @ a # post \<and> P a \<and> (\<forall>b \<in> set pre. \<not> P b))"
proof
  assume "List.find P xs = Some a"
  then show "\<exists>pre post. xs = pre @ a # post \<and> P a \<and> (\<forall>b \<in> set pre. \<not> P b)"
  proof (induction xs)
    case Nil
    then show ?case by simp
  next
    case (Cons x xs)
    show ?case
    proof (cases "P x")
      case True
      with Cons.prems have "x = a" by simp
      with True show ?thesis by (intro exI [of _ "[]"] exI [of _ xs]) simp
    next
      case False
      with Cons obtain pre post where "xs = pre @ a # post" "P a" "\<forall>b \<in> set pre. \<not> P b"
        by auto
      with False show ?thesis by (intro exI [of _ "x # pre"] exI [of _ post]) simp
    qed
  qed
next
  assume "\<exists>pre post. xs = pre @ a # post \<and> P a \<and> (\<forall>b \<in> set pre. \<not> P b)"
  then show "List.find P xs = Some a" by (auto simp: find_append_none)
qed

end
