(* ===== verification/TIndex.thy ===== *)
theory TIndex
  imports Prelude
begin

text \<open>
  The interface of the \<open>tindex\<close> crate, as far as \<open>src/lib.rs\<close> calls it. The crate is
  a dependency and its source is not part of the repository, so the operations are
  modelled by what the callers rely on.

  \<^item> \<open>TBitSet<I>\<close> is a finite set of indices: \<open>'i bitset\<close> is \<open>'i fset\<close>. \<open>add\<close>
    inserts, \<open>remove\<close> deletes (a missing element is left missing), \<open>get\<close> tests
    membership, \<open>iter\<close> enumerates in ascending order, \<open>element_count\<close> is the
    cardinality, \<open>is_empty\<close> tests for the empty set and \<open>collect\<close> builds a set
    from an iterator.
  \<^item> \<open>TVec<I, T>\<close> is a vector indexed by \<open>I\<close>: a list, indexed here by the \<open>usize\<close>
    that \<open>TIndex::as_index\<close> gives. Indexing past the end panics, for reads
    (\<open>tv_index\<close>) and for writes through \<open>IndexMut\<close> (\<open>tv_modify\<close>, which applies
    a function to the entry in place). \<open>push\<close> appends and returns the new index;
    \<open>index_iter\<close> enumerates the indices.

  The lemmas unfold each operation to finite sets and lists (collection
  \<open>bitset_simps\<close>), give the computation rules of the panicking vector accesses
  (collection \<open>result_simps\<close>), and relate \<open>bs_iter\<close> to sorted, distinct lists.
\<close>

section \<open>Bit sets\<close>

type_synonym 'i bitset = "'i fset"

definition bs_new :: "'i bitset" where
  "bs_new = {||}"

definition bs_add :: "'i \<Rightarrow> 'i bitset \<Rightarrow> 'i bitset" where
  "bs_add i s = finsert i s"

definition bs_remove :: "'i \<Rightarrow> 'i bitset \<Rightarrow> 'i bitset" where
  "bs_remove i s = s |-| {|i|}"

definition bs_get :: "'i bitset \<Rightarrow> 'i \<Rightarrow> bool" where
  "bs_get s i \<longleftrightarrow> i |\<in>| s"

definition bs_iter :: "'i::linorder bitset \<Rightarrow> 'i list" where
  "bs_iter s = sorted_list_of_fset s"

definition bs_element_count :: "'i bitset \<Rightarrow> nat" where
  "bs_element_count s = fcard s"

definition bs_is_empty :: "'i bitset \<Rightarrow> bool" where
  "bs_is_empty s \<longleftrightarrow> s = {||}"

definition bs_collect :: "'i list \<Rightarrow> 'i bitset" where
  "bs_collect xs = fset_of_list xs"

section \<open>Vectors\<close>

definition tv_index :: "'a list \<Rightarrow> nat \<Rightarrow> 'a result" where
  "tv_index v i = (if i < length v then Inr (v ! i) else Inl IndexOutOfBounds)"

definition tv_modify :: "nat \<Rightarrow> ('a \<Rightarrow> 'a) \<Rightarrow> 'a list \<Rightarrow> 'a list result" where
  "tv_modify i f v = (if i < length v then Inr (v[i := f (v ! i)]) else Inl IndexOutOfBounds)"

definition tv_push :: "'a \<Rightarrow> 'a list \<Rightarrow> nat \<times> 'a list" where
  "tv_push x v = (length v, v @ [x])"

definition tv_index_iter :: "'a list \<Rightarrow> nat list" where
  "tv_index_iter v = [0..<length v]"

section \<open>Bit sets as finite sets\<close>

lemmas bitset_defs =
  bs_new_def bs_add_def bs_remove_def bs_get_def bs_element_count_def bs_is_empty_def
  bs_collect_def

lemma fset_bs_new [simp, bitset_simps]: "fset bs_new = {}"
  by (simp add: bs_new_def)

lemma fset_bs_add [simp, bitset_simps]: "fset (bs_add i s) = insert i (fset s)"
  by (simp add: bs_add_def)

lemma fset_bs_remove [simp, bitset_simps]: "fset (bs_remove i s) = fset s - {i}"
  by (simp add: bs_remove_def)

lemma bs_get_iff [simp, bitset_simps]: "bs_get s i \<longleftrightarrow> i \<in> fset s"
  by (simp add: bs_get_def)

lemma set_bs_iter [simp, bitset_simps]: "set (bs_iter s) = fset s"
  by (simp add: bs_iter_def)

lemma bs_element_count_card [bitset_simps]: "bs_element_count s = card (fset s)"
  by (simp add: bs_element_count_def fcard.rep_eq)

lemma fset_eq_empty_iff [simp]: "fset s = {} \<longleftrightarrow> s = {||}"
  by (metis fset_simps(1) fset_inject)

lemma bs_is_empty_iff [simp, bitset_simps]: "bs_is_empty s \<longleftrightarrow> s = {||}"
  by (simp add: bs_is_empty_def)

lemma fset_bs_collect [simp, bitset_simps]: "fset (bs_collect xs) = set xs"
  by (simp add: bs_collect_def fset_of_list.rep_eq)

text \<open>Two bit sets with the same elements are the same bit set.\<close>

lemma bitset_eqI: "fset s = fset t \<Longrightarrow> s = t"
  by (simp add: fset_inject)

subsection \<open>Adding and removing\<close>

lemma bs_add_idem [simp]: "bs_add i (bs_add i s) = bs_add i s"
  by (simp add: bs_add_def)

lemma bs_remove_idem [simp]: "bs_remove i (bs_remove i s) = bs_remove i s"
  by (rule bitset_eqI) auto

lemma bs_add_absorb: "i |\<in>| s \<Longrightarrow> bs_add i s = s"
  by (rule bitset_eqI) auto

lemma bs_remove_absent: "i |\<notin>| s \<Longrightarrow> bs_remove i s = s"
  by (rule bitset_eqI) auto

lemma bs_remove_add: "i |\<notin>| s \<Longrightarrow> bs_remove i (bs_add i s) = s"
  by (rule bitset_eqI) auto

lemma bs_element_count_remove:
  "bs_element_count (bs_remove i s) = (if i |\<in>| s then bs_element_count s - 1 else bs_element_count s)"
  by (simp add: bitset_simps)

lemma bs_element_count_remove_less:
  "i |\<in>| s \<Longrightarrow> bs_element_count (bs_remove i s) < bs_element_count s"
  unfolding bs_element_count_def bs_remove_def by (rule fcard_fminus1_less)

lemma bs_element_count_mono: "fset s \<subseteq> fset t \<Longrightarrow> bs_element_count s \<le> bs_element_count t"
  by (simp add: bitset_simps card_mono)

lemma bs_element_count_empty [simp]: "bs_element_count {||} = 0"
  by (simp add: bs_element_count_def)

subsection \<open>Iteration order\<close>

lemma sorted_bs_iter [simp]: "sorted (bs_iter s)"
  by (simp add: bs_iter_def sorted_list_of_fset.rep_eq)

lemma distinct_bs_iter [simp]: "distinct (bs_iter s)"
  by (simp add: bs_iter_def sorted_list_of_fset.rep_eq)

lemma length_bs_iter: "length (bs_iter s) = bs_element_count s"
  by (simp add: bs_iter_def sorted_list_of_fset.rep_eq bs_element_count_card)

lemma bs_iter_collect: "sorted xs \<Longrightarrow> distinct xs \<Longrightarrow> bs_iter (bs_collect xs) = xs"
  by (simp add: bs_iter_def sorted_list_of_fset.rep_eq
      sorted_list_of_set.idem_if_sorted_distinct)

lemma bs_iter_Nil_iff [simp]: "bs_iter s = [] \<longleftrightarrow> s = {||}"
  by (metis fset_eq_empty_iff set_bs_iter set_empty)

lemma bs_iter_empty [simp]: "bs_iter {||} = []"
  by simp

section \<open>Vector accesses\<close>

lemma tv_index_Inr [result_simps]: "i < length v \<Longrightarrow> tv_index v i = Inr (v ! i)"
  by (simp add: tv_index_def)

lemma tv_index_Inl [result_simps]: "\<not> i < length v \<Longrightarrow> tv_index v i = Inl IndexOutOfBounds"
  by (simp add: tv_index_def)

lemma tv_index_eq_Inr_iff: "tv_index v i = Inr x \<longleftrightarrow> i < length v \<and> x = v ! i"
  by (auto simp: tv_index_def)

lemma tv_modify_Inr [result_simps]:
  "i < length v \<Longrightarrow> tv_modify i f v = Inr (v[i := f (v ! i)])"
  by (simp add: tv_modify_def)

lemma tv_modify_Inl [result_simps]:
  "\<not> i < length v \<Longrightarrow> tv_modify i f v = Inl IndexOutOfBounds"
  by (simp add: tv_modify_def)

lemma tv_modify_eq_Inr_iff:
  "tv_modify i f v = Inr w \<longleftrightarrow> i < length v \<and> w = v[i := f (v ! i)]"
  by (auto simp: tv_modify_def)

lemma tv_modify_eq_Inl_iff:
  "tv_modify i f v = Inl e \<longleftrightarrow> \<not> i < length v \<and> e = IndexOutOfBounds"
  by (auto simp: tv_modify_def)

lemma tv_modify_length [frame_simps]: "tv_modify i f v = Inr w \<Longrightarrow> length w = length v"
  by (auto simp: tv_modify_eq_Inr_iff)

lemma tv_modify_other [frame_simps]:
  "tv_modify i f v = Inr w \<Longrightarrow> j \<noteq> i \<Longrightarrow> w ! j = v ! j"
  by (auto simp: tv_modify_eq_Inr_iff)

text \<open>
  A loop that writes through \<open>IndexMut\<close> at pairwise distinct positions inside the vector
  does not panic, and changes exactly the entries at those positions.
\<close>

lemma for_each_tv_modify:
  assumes "distinct (map idx xs)" and "\<forall>x \<in> set xs. idx x < length v"
  shows "for_each xs (\<lambda>x. tv_modify (idx x) f) v =
    Inr (map (\<lambda>i. if i \<in> idx ` set xs then f (v ! i) else v ! i) [0..<length v])"
  using assms
proof (induction xs arbitrary: v)
  case Nil
  show ?case by (simp add: map_nth)
next
  case (Cons x xs)
  let ?v = "v[idx x := f (v ! idx x)]"
  from Cons.prems have x: "idx x < length v" "idx x \<notin> idx ` set xs" by auto
  have "for_each xs (\<lambda>x. tv_modify (idx x) f) ?v =
      Inr (map (\<lambda>i. if i \<in> idx ` set xs then f (?v ! i) else ?v ! i) [0..<length ?v])"
    using Cons.prems by (intro Cons.IH) auto
  also have "map (\<lambda>i. if i \<in> idx ` set xs then f (?v ! i) else ?v ! i) [0..<length ?v] =
      map (\<lambda>i. if i \<in> idx ` set (x # xs) then f (v ! i) else v ! i) [0..<length v]"
    using x by (auto simp: nth_list_update)
  finally show ?case using x by (simp add: tv_modify_Inr)
qed

text \<open>The first position outside the vector ends such a loop with a panic.\<close>

lemma for_each_tv_modify_panic:
  assumes "distinct (map idx xs)" and "\<forall>x \<in> set xs. idx x < length v"
    and "\<not> idx y < length v"
  shows "for_each (xs @ y # ys) (\<lambda>x. tv_modify (idx x) f) v = Inl IndexOutOfBounds"
  using for_each_tv_modify [OF assms(1,2), of f] assms(3)
  by (simp add: for_each_append tv_modify_Inl)

lemma tv_push_index: "fst (tv_push x v) = length v"
  by (simp add: tv_push_def)

lemma tv_push_nth:
  "i \<le> length v \<Longrightarrow> snd (tv_push x v) ! i = (if i = length v then x else v ! i)"
  by (simp add: tv_push_def nth_append)

lemma tv_push_length: "length (snd (tv_push x v)) = Suc (length v)"
  by (simp add: tv_push_def)

lemma set_tv_index_iter [simp]: "set (tv_index_iter v) = {0..<length v}"
  by (simp add: tv_index_iter_def)

end
