(* ===== verification/Graph.thy ===== *)
theory Graph
  imports TIndex
begin

text \<open>
  The undirected graph of \<open>src/lib.rs\<close>: the handle \<open>NodeId\<close>, the structure
  \<open>Graph\<close> with its single field \<open>nodes\<close> (one adjacency bit set per node), and
  the operations \<open>new\<close>, \<open>check_invariants\<close>, \<open>add_node\<close>, \<open>add_edge\<close> and
  \<open>remove_edge\<close>.

  An operation that takes \<open>&mut self\<close> returns the new graph; one that can panic
  returns a \<open>result\<close>. \<open>add_edge\<close> and \<open>remove_edge\<close> index the vector twice, in
  the order of the source; the value of a call that panics is the panic alone. The
  half-written vector of a call with a bad second handle is kept in theory \<open>Unwind\<close>.

  \<open>NodeId\<close> derives its comparisons: \<open>eq_NodeId\<close>, \<open>cmp_NodeId\<close> and
  \<open>partial_cmp_NodeId\<close> are the derived \<open>PartialEq::eq\<close>, \<open>Ord::cmp\<close> and
  \<open>PartialOrd::partial_cmp\<close>, which compare the only field, and the instance of
  \<open>linorder\<close> is the order they define. \<open>add_edge\<close> tests \<open>a != b\<close> with
  \<open>eq_NodeId\<close>.

  Then, in this order: the neighbourhood \<open>neighbours\<close> and the predicates
  \<open>graph_ok\<close> (what \<open>check_invariants\<close> asserts: every neighbour is a node and
  adjacency is symmetric), \<open>loop_free\<close> and \<open>graph_inv\<close>; the behaviour of each
  operation on every branch; the proof that \<open>check_invariants\<close> decides
  \<open>graph_ok\<close>; preservation of the invariant; idempotence; the abstract graph
  \<open>agraph\<close> (a node count and an edge relation) with the refinement of each
  operation, panics included; and the graphs reachable through the public
  interface, which all satisfy \<open>graph_inv\<close>.
\<close>

section \<open>Node handles\<close>

datatype NodeId = NodeId (as_index: nat)

instantiation NodeId :: linorder
begin

definition less_eq_NodeId :: "NodeId \<Rightarrow> NodeId \<Rightarrow> bool" where
  "less_eq_NodeId a b \<longleftrightarrow> as_index a \<le> as_index b"

definition less_NodeId :: "NodeId \<Rightarrow> NodeId \<Rightarrow> bool" where
  "less_NodeId a b \<longleftrightarrow> as_index a < as_index b"

instance
  by standard (auto simp: less_eq_NodeId_def less_NodeId_def NodeId.expand)

end

datatype ordering = Less | Equal | Greater

definition eq_NodeId :: "NodeId \<Rightarrow> NodeId \<Rightarrow> bool" where
  "eq_NodeId a b \<longleftrightarrow> as_index a = as_index b"

definition cmp_NodeId :: "NodeId \<Rightarrow> NodeId \<Rightarrow> ordering" where
  "cmp_NodeId a b =
     (if as_index a < as_index b then Less
      else if as_index a = as_index b then Equal
      else Greater)"

definition partial_cmp_NodeId :: "NodeId \<Rightarrow> NodeId \<Rightarrow> ordering option" where
  "partial_cmp_NodeId a b = Some (cmp_NodeId a b)"

definition index_iter :: "'a list \<Rightarrow> NodeId list" where
  "index_iter v = map NodeId (tv_index_iter v)"

section \<open>The graph and its operations\<close>

record Graph =
  nodes :: "NodeId bitset list"

definition default_graph :: Graph where
  "default_graph = \<lparr>nodes = []\<rparr>"

definition new :: Graph where
  "new = default_graph"

definition check_edge :: "Graph \<Rightarrow> NodeId \<Rightarrow> NodeId \<Rightarrow> unit \<Rightarrow> unit result" where
  "check_edge g a b u =
     (if as_index b < length (nodes g)
      then bindr (tv_index (nodes g) (as_index b))
             (\<lambda>adj. if bs_get adj a then Inr () else Inl AssertionFailed)
      else Inl AssertionFailed)"

definition check_node :: "Graph \<Rightarrow> NodeId \<Rightarrow> unit \<Rightarrow> unit result" where
  "check_node g a u =
     bindr (tv_index (nodes g) (as_index a))
       (\<lambda>adj. for_each (bs_iter adj) (check_edge g a) ())"

definition check_invariants :: "Graph \<Rightarrow> unit result" where
  "check_invariants g = for_each (index_iter (nodes g)) (check_node g) ()"

definition add_node :: "Graph \<Rightarrow> NodeId \<times> Graph" where
  "add_node g = (case tv_push bs_new (nodes g) of (i, ns) \<Rightarrow> (NodeId i, g\<lparr>nodes := ns\<rparr>))"

definition add_edge :: "NodeId \<Rightarrow> NodeId \<Rightarrow> Graph \<Rightarrow> Graph result" where
  "add_edge a b g =
     (if \<not> eq_NodeId a b
      then bindr (tv_modify (as_index a) (bs_add b) (nodes g))
             (\<lambda>ns. bindr (tv_modify (as_index b) (bs_add a) ns)
                (\<lambda>ns'. Inr (g\<lparr>nodes := ns'\<rparr>)))
      else Inr g)"

definition remove_edge :: "NodeId \<Rightarrow> NodeId \<Rightarrow> Graph \<Rightarrow> Graph result" where
  "remove_edge a b g =
     bindr (tv_modify (as_index a) (bs_remove b) (nodes g))
       (\<lambda>ns. bindr (tv_modify (as_index b) (bs_remove a) ns)
          (\<lambda>ns'. Inr (g\<lparr>nodes := ns'\<rparr>)))"

section \<open>Neighbourhoods and the invariant\<close>

definition valid_node :: "Graph \<Rightarrow> NodeId \<Rightarrow> bool" where
  "valid_node g a \<longleftrightarrow> as_index a < length (nodes g)"

definition neighbours :: "Graph \<Rightarrow> NodeId \<Rightarrow> NodeId set" where
  "neighbours g a = (if valid_node g a then fset (nodes g ! as_index a) else {})"

definition graph_ok :: "Graph \<Rightarrow> bool" where
  "graph_ok g \<longleftrightarrow> (\<forall>a b. b \<in> neighbours g a \<longrightarrow> valid_node g b \<and> a \<in> neighbours g b)"

definition loop_free :: "Graph \<Rightarrow> bool" where
  "loop_free g \<longleftrightarrow> (\<forall>a. a \<notin> neighbours g a)"

definition graph_inv :: "Graph \<Rightarrow> bool" where
  "graph_inv g \<longleftrightarrow> graph_ok g \<and> loop_free g"

section \<open>The public interface as a datatype of operations\<close>

datatype graph_op = AddNode | AddEdge NodeId NodeId | RemoveEdge NodeId NodeId

fun apply_op :: "graph_op \<Rightarrow> Graph \<Rightarrow> Graph result" where
  "apply_op AddNode g = Inr (snd (add_node g))"
| "apply_op (AddEdge a b) g = add_edge a b g"
| "apply_op (RemoveEdge a b) g = remove_edge a b g"

definition run_ops :: "graph_op list \<Rightarrow> Graph \<Rightarrow> Graph result" where
  "run_ops ops g = for_each ops apply_op g"

inductive reachable :: "Graph \<Rightarrow> bool" where
  init: "reachable new"
| step: "reachable g \<Longrightarrow> apply_op op g = Inr g' \<Longrightarrow> reachable g'"

section \<open>The abstract graph\<close>

text \<open>
  What the structure promises: a number of nodes and a set of ordered pairs, with the
  operations of the interface acting on them. \<open>abs_graph\<close> reads the abstract graph
  off the adjacency sets.
\<close>

record agraph =
  a_order :: nat
  a_edges :: "(NodeId \<times> NodeId) set"

definition a_valid :: "agraph \<Rightarrow> NodeId \<Rightarrow> bool" where
  "a_valid ag a \<longleftrightarrow> as_index a < a_order ag"

definition a_new :: agraph where
  "a_new = \<lparr>a_order = 0, a_edges = {}\<rparr>"

definition a_add_node :: "agraph \<Rightarrow> NodeId \<times> agraph" where
  "a_add_node ag = (NodeId (a_order ag), ag\<lparr>a_order := Suc (a_order ag)\<rparr>)"

definition a_add_edge :: "NodeId \<Rightarrow> NodeId \<Rightarrow> agraph \<Rightarrow> agraph result" where
  "a_add_edge a b ag =
     (if a = b then Inr ag
      else if a_valid ag a \<and> a_valid ag b
        then Inr (ag\<lparr>a_edges := a_edges ag \<union> {(a, b), (b, a)}\<rparr>)
        else Inl IndexOutOfBounds)"

definition a_remove_edge :: "NodeId \<Rightarrow> NodeId \<Rightarrow> agraph \<Rightarrow> agraph result" where
  "a_remove_edge a b ag =
     (if a_valid ag a \<and> a_valid ag b
      then Inr (ag\<lparr>a_edges := a_edges ag - {(a, b), (b, a)}\<rparr>)
      else Inl IndexOutOfBounds)"

fun a_apply_op :: "graph_op \<Rightarrow> agraph \<Rightarrow> agraph result" where
  "a_apply_op AddNode ag = Inr (snd (a_add_node ag))"
| "a_apply_op (AddEdge a b) ag = a_add_edge a b ag"
| "a_apply_op (RemoveEdge a b) ag = a_remove_edge a b ag"

definition a_run_ops :: "graph_op list \<Rightarrow> agraph \<Rightarrow> agraph result" where
  "a_run_ops ops ag = for_each ops a_apply_op ag"

definition abs_graph :: "Graph \<Rightarrow> agraph" where
  "abs_graph g = \<lparr>a_order = length (nodes g), a_edges = {(a, b). b \<in> neighbours g a}\<rparr>"

section \<open>The graph of the crate's test\<close>

text \<open>
  The test \<open>simple\<close> builds four nodes \<open>a\<close>, \<open>b\<close>, \<open>c\<close>, \<open>d\<close> (the handles 0 to 3)
  and the edges \<open>a-c\<close>, \<open>a-d\<close>, \<open>b-c\<close>, \<open>b-d\<close>, \<open>c-d\<close>. \<open>simple_ops\<close> is that
  sequence of calls and \<open>simple_graph\<close> the graph it builds (\<open>run_simple_ops\<close>).
\<close>

definition simple_ops :: "graph_op list" where
  "simple_ops =
     [AddNode, AddNode, AddNode, AddNode,
      AddEdge (NodeId 0) (NodeId 2), AddEdge (NodeId 0) (NodeId 3),
      AddEdge (NodeId 1) (NodeId 2), AddEdge (NodeId 1) (NodeId 3),
      AddEdge (NodeId 2) (NodeId 3)]"

definition simple_graph :: Graph where
  "simple_graph = \<lparr>nodes =
     [{|NodeId 2, NodeId 3|}, {|NodeId 2, NodeId 3|},
      {|NodeId 0, NodeId 1, NodeId 3|}, {|NodeId 0, NodeId 1, NodeId 2|}]\<rparr>"

section \<open>Handles are ordered by their index\<close>

lemma as_index_eq_iff [simp]: "as_index a = as_index b \<longleftrightarrow> a = b"
  by (cases a; cases b) simp

lemma eq_NodeId_iff [simp]: "eq_NodeId a b \<longleftrightarrow> a = b"
  by (simp add: eq_NodeId_def)

lemma cmp_NodeId_iff:
  "cmp_NodeId a b = Less \<longleftrightarrow> a < b"
  "cmp_NodeId a b = Equal \<longleftrightarrow> a = b"
  "cmp_NodeId a b = Greater \<longleftrightarrow> b < a"
  by (cases a; cases b; auto simp: cmp_NodeId_def less_NodeId_def)+

lemma partial_cmp_NodeId_total: "partial_cmp_NodeId a b \<noteq> None"
  by (simp add: partial_cmp_NodeId_def)

lemma NodeId_le_iff [simp]: "NodeId i \<le> NodeId j \<longleftrightarrow> i \<le> j"
  by (simp add: less_eq_NodeId_def)

lemma NodeId_less_iff [simp]: "NodeId i < NodeId j \<longleftrightarrow> i < j"
  by (simp add: less_NodeId_def)

lemma sorted_map_NodeId [simp]: "sorted (map NodeId xs) \<longleftrightarrow> sorted xs"
  by (induction xs) auto

lemma distinct_map_NodeId [simp]: "distinct (map NodeId xs) \<longleftrightarrow> distinct xs"
  by (simp add: distinct_map inj_on_def)

lemma NodeId_as_index_image: "NodeId ` {0..<n} = {a. as_index a < n}"
proof -
  have "a \<in> NodeId ` {0..<n}" if "as_index a < n" for a
    using that by (cases a) simp
  then show ?thesis by auto
qed

lemma card_valid_nodes [simp]: "card {a. as_index a < n} = n"
  unfolding NodeId_as_index_image [symmetric] by (simp add: card_image inj_on_def)

lemma finite_valid_nodes [simp]: "finite {a. as_index a < n}"
  unfolding NodeId_as_index_image [symmetric] by simp

lemma set_index_iter [simp]: "set (index_iter v) = {a. as_index a < length v}"
  by (simp add: index_iter_def NodeId_as_index_image)

lemma sorted_index_iter [simp]: "sorted (index_iter v)"
  by (simp add: index_iter_def tv_index_iter_def)

lemma distinct_index_iter [simp]: "distinct (index_iter v)"
  by (simp add: index_iter_def tv_index_iter_def)

lemma length_index_iter [simp]: "length (index_iter v) = length v"
  by (simp add: index_iter_def tv_index_iter_def)

lemma bs_iter_collect_index_iter [simp]: "bs_iter (bs_collect (index_iter v)) = index_iter v"
  by (simp add: bs_iter_collect)

section \<open>Neighbourhoods after each operation\<close>

lemma valid_node_new [simp]: "\<not> valid_node new a"
  by (simp add: valid_node_def new_def default_graph_def)

lemma neighbours_new [simp]: "neighbours new a = {}"
  by (simp add: neighbours_def)

lemma neighbours_invalid: "\<not> valid_node g a \<Longrightarrow> neighbours g a = {}"
  by (simp add: neighbours_def)

lemma neighbours_valid: "valid_node g a \<Longrightarrow> neighbours g a = fset (nodes g ! as_index a)"
  by (simp add: neighbours_def)

lemma finite_neighbours [simp]: "finite (neighbours g a)"
  by (simp add: neighbours_def)

lemma add_node_fresh: "fst (add_node g) = NodeId (length (nodes g))"
  by (simp add: add_node_def tv_push_def)

lemma add_node_nodes: "nodes (snd (add_node g)) = nodes g @ [bs_new]"
  by (simp add: add_node_def tv_push_def)

lemma valid_node_add_node:
  "valid_node (snd (add_node g)) a \<longleftrightarrow> valid_node g a \<or> a = fst (add_node g)"
  by (cases a) (auto simp: valid_node_def add_node_nodes add_node_fresh)

lemma neighbours_add_node [simp]: "neighbours (snd (add_node g)) a = neighbours g a"
  by (auto simp: neighbours_def valid_node_def add_node_nodes nth_append)

lemma add_edge_self [simp]: "add_edge a a g = Inr g"
  by (simp add: add_edge_def)

text \<open>
  \<open>add_edge\<close> on every branch: equal handles change nothing, even when they are out
  of range; distinct handles must both be nodes, and then each entry gains the other.
\<close>

lemma add_edge_eq_Inr_iff:
  "add_edge a b g = Inr g' \<longleftrightarrow>
     (if a = b then g' = g
      else valid_node g a \<and> valid_node g b \<and>
        g' = g\<lparr>nodes := (nodes g)[as_index a := bs_add b (nodes g ! as_index a),
                               as_index b := bs_add a (nodes g ! as_index b)]\<rparr>)"
  by (auto simp: add_edge_def valid_node_def bindr_eq_Inr_iff tv_modify_eq_Inr_iff)

lemma add_edge_eq_Inl_iff:
  "add_edge a b g = Inl e \<longleftrightarrow>
     a \<noteq> b \<and> \<not> (valid_node g a \<and> valid_node g b) \<and> e = IndexOutOfBounds"
  by (auto simp: add_edge_def valid_node_def bindr_eq_Inl_iff tv_modify_eq_Inl_iff
      tv_modify_eq_Inr_iff)

lemma remove_edge_eq_Inr_iff:
  "remove_edge a b g = Inr g' \<longleftrightarrow>
     valid_node g a \<and> valid_node g b \<and>
     g' = g\<lparr>nodes := ((nodes g)[as_index a := bs_remove b (nodes g ! as_index a)])
       [as_index b := bs_remove a
          ((nodes g)[as_index a := bs_remove b (nodes g ! as_index a)] ! as_index b)]\<rparr>"
  by (auto simp: remove_edge_def valid_node_def bindr_eq_Inr_iff tv_modify_eq_Inr_iff)

lemma remove_edge_eq_Inl_iff:
  "remove_edge a b g = Inl e \<longleftrightarrow> \<not> (valid_node g a \<and> valid_node g b) \<and> e = IndexOutOfBounds"
  by (auto simp: remove_edge_def valid_node_def bindr_eq_Inl_iff tv_modify_eq_Inl_iff
      tv_modify_eq_Inr_iff)

lemma add_edge_total:
  "valid_node g a \<Longrightarrow> valid_node g b \<Longrightarrow> \<exists>g'. add_edge a b g = Inr g'"
  by (cases "add_edge a b g") (auto simp: add_edge_eq_Inl_iff)

lemma remove_edge_total:
  "valid_node g a \<Longrightarrow> valid_node g b \<Longrightarrow> \<exists>g'. remove_edge a b g = Inr g'"
  by (cases "remove_edge a b g") (auto simp: remove_edge_eq_Inl_iff)

lemma add_edge_length [frame_simps]:
  "add_edge a b g = Inr g' \<Longrightarrow> length (nodes g') = length (nodes g)"
  by (auto simp: add_edge_eq_Inr_iff split: if_splits)

lemma remove_edge_length [frame_simps]:
  "remove_edge a b g = Inr g' \<Longrightarrow> length (nodes g') = length (nodes g)"
  by (auto simp: remove_edge_eq_Inr_iff)

lemma valid_node_add_edge [frame_simps]:
  "add_edge a b g = Inr g' \<Longrightarrow> valid_node g' c = valid_node g c"
  by (drule add_edge_length) (simp add: valid_node_def)

lemma valid_node_remove_edge [frame_simps]:
  "remove_edge a b g = Inr g' \<Longrightarrow> valid_node g' c = valid_node g c"
  by (drule remove_edge_length) (simp add: valid_node_def)

lemma neighbours_add_edge:
  assumes "add_edge a b g = Inr g'" and "a \<noteq> b"
  shows "neighbours g' c =
    (if c = a then insert b (neighbours g a)
     else if c = b then insert a (neighbours g b) else neighbours g c)"
  using assms
  by (auto simp: add_edge_eq_Inr_iff neighbours_def valid_node_def nth_list_update)

lemma neighbours_remove_edge:
  assumes "remove_edge a b g = Inr g'"
  shows "neighbours g' c =
    (if c = a \<and> c = b then neighbours g c - {c}
     else if c = a then neighbours g a - {b}
     else if c = b then neighbours g b - {a} else neighbours g c)"
  using assms
  by (auto simp: remove_edge_eq_Inr_iff neighbours_def valid_node_def nth_list_update)

text \<open>Two graphs with the same number of nodes and the same neighbourhoods are equal.\<close>

lemma graph_eqI:
  assumes "length (nodes g) = length (nodes h)"
    and "\<And>a. valid_node g a \<Longrightarrow> neighbours g a = neighbours h a"
  shows "(g :: Graph) = h"
proof -
  have "nodes g ! i = nodes h ! i" if "i < length (nodes g)" for i
    using assms(2) [of "NodeId i"] that assms(1)
    by (simp add: neighbours_def valid_node_def fset_inject)
  with assms(1) have "nodes g = nodes h" by (simp add: list_eq_iff_nth_eq)
  then show ?thesis by simp
qed

section \<open>What \<open>check_invariants\<close> checks\<close>

lemma check_edge_eq:
  "check_edge g a b u =
    (if valid_node g b \<and> a \<in> neighbours g b then Inr () else Inl AssertionFailed)"
  by (simp add: check_edge_def valid_node_def neighbours_def tv_index_def)

lemma check_node_eq:
  assumes "valid_node g a"
  shows "check_node g a u =
    (if \<forall>b \<in> neighbours g a. valid_node g b \<and> a \<in> neighbours g b
     then Inr () else Inl AssertionFailed)"
proof -
  have "check_node g a u = for_each (bs_iter (nodes g ! as_index a))
      (\<lambda>b u. if valid_node g b \<and> a \<in> neighbours g b then Inr () else Inl AssertionFailed) ()"
    using assms
    by (simp add: check_node_def valid_node_def tv_index_def check_edge_eq cong: for_each_cong)
  then show ?thesis
    using assms by (simp add: for_each_unit list_all_iff neighbours_valid)
qed

lemma check_invariants_decides:
  "check_invariants g = (if graph_ok g then Inr () else Inl AssertionFailed)"
proof -
  let ?P = "\<lambda>a. \<forall>b \<in> neighbours g a. valid_node g b \<and> a \<in> neighbours g b"
  have "check_invariants g = for_each (index_iter (nodes g))
      (\<lambda>a u. if ?P a then Inr () else Inl AssertionFailed) ()"
    unfolding check_invariants_def
    by (rule for_each_cong) (simp_all add: check_node_eq valid_node_def)
  also have "\<dots> = (if list_all ?P (index_iter (nodes g)) then Inr () else Inl AssertionFailed)"
    by (rule for_each_unit)
  also have "list_all ?P (index_iter (nodes g)) \<longleftrightarrow> graph_ok g"
    unfolding graph_ok_def list_all_iff
    by (auto simp: valid_node_def neighbours_def)
  finally show ?thesis .
qed

lemma check_invariants_Inr_iff: "check_invariants g = Inr u \<longleftrightarrow> graph_ok g"
  by (simp add: check_invariants_decides)

text \<open>
  C6. \<open>check_invariants\<close> returns normally exactly on the graphs in which every
  neighbour of a node is a node of the graph and adjacency is symmetric; on every
  other graph it panics with a failed assertion, never with an index out of bounds
  (the bound is asserted before the vector is indexed).
\<close>

theorem check_invariants_eq:
  "check_invariants g =
    (if \<forall>a b. b \<in> neighbours g a \<longrightarrow> valid_node g b \<and> a \<in> neighbours g b
     then Inr () else Inl AssertionFailed)"
  by (simp add: check_invariants_decides graph_ok_def)

lemma check_simple_graph: "check_invariants simple_graph = Inr ()"
  by code_simp

lemma simple_graph_ok: "graph_ok simple_graph"
  using check_simple_graph by (simp add: check_invariants_Inr_iff)

lemma simple_graph_small: "length (nodes simple_graph) < usize_max"
  by (simp add: simple_graph_def usize_max_def)

theorem check_invariants_eq_witness:
  "check_invariants simple_graph = Inr () \<and>
   NodeId 0 \<in> neighbours simple_graph (NodeId 2) \<and>
   NodeId 2 \<in> neighbours simple_graph (NodeId 0) \<and> valid_node simple_graph (NodeId 0)"
proof -
  have "NodeId 0 \<in> neighbours simple_graph (NodeId 2)"
    by (simp add: neighbours_def valid_node_def simple_graph_def)
  with check_simple_graph check_invariants_eq [of simple_graph]
  show ?thesis by (auto split: if_splits)
qed

section \<open>The operations keep the invariant\<close>

lemma graph_ok_new: "graph_ok new"
  by (simp add: graph_ok_def)

lemma loop_free_new: "loop_free new"
  by (simp add: loop_free_def)

lemma graph_ok_add_node: "graph_ok g \<Longrightarrow> graph_ok (snd (add_node g))"
  by (auto simp: graph_ok_def valid_node_add_node)

lemma loop_free_add_node: "loop_free g \<Longrightarrow> loop_free (snd (add_node g))"
  by (simp add: loop_free_def)

lemma graph_ok_add_edge:
  assumes "graph_ok g" and "add_edge a b g = Inr g'"
  shows "graph_ok g'"
proof (cases "a = b")
  case True
  with assms show ?thesis by simp
next
  case False
  from assms(2) False have v: "valid_node g a" "valid_node g b"
    by (simp_all add: add_edge_eq_Inr_iff)
  show ?thesis
    unfolding graph_ok_def
    using assms(1) v
    by (auto simp: neighbours_add_edge [OF assms(2) False] valid_node_add_edge [OF assms(2)]
        graph_ok_def split: if_splits)
qed

lemma loop_free_add_edge:
  assumes "loop_free g" and "add_edge a b g = Inr g'"
  shows "loop_free g'"
proof (cases "a = b")
  case True
  with assms show ?thesis by simp
next
  case False
  show ?thesis
    unfolding loop_free_def
    using assms(1) False
    by (auto simp: neighbours_add_edge [OF assms(2) False] loop_free_def)
qed

lemma graph_ok_remove_edge:
  assumes "graph_ok g" and "remove_edge a b g = Inr g'"
  shows "graph_ok g'"
  unfolding graph_ok_def
  using assms(1)
  by (auto simp: neighbours_remove_edge [OF assms(2)] valid_node_remove_edge [OF assms(2)]
      graph_ok_def split: if_splits)

lemma loop_free_remove_edge:
  assumes "loop_free g" and "remove_edge a b g = Inr g'"
  shows "loop_free g'"
  unfolding loop_free_def
  using assms(1)
  by (auto simp: neighbours_remove_edge [OF assms(2)] loop_free_def split: if_splits)

lemma graph_inv_apply_op:
  assumes "graph_inv g" and "apply_op op g = Inr g'"
  shows "graph_inv g'"
  using assms
  by (cases op)
    (auto simp: graph_inv_def
      intro: graph_ok_add_node loop_free_add_node graph_ok_add_edge loop_free_add_edge
        graph_ok_remove_edge loop_free_remove_edge)

section \<open>Idempotence\<close>

text \<open>
  C9. Adding an edge a second time changes nothing: whenever \<open>add_edge a b\<close>
  returns a graph, applying it again to that graph returns the same graph.
\<close>

theorem add_edge_idem:
  assumes "add_edge a b g = Inr g'"
  shows "add_edge a b g' = Inr g'"
proof (cases "a = b")
  case True
  then show ?thesis by simp
next
  case False
  from assms False have "valid_node g a" "valid_node g b"
    by (simp_all add: add_edge_eq_Inr_iff)
  then have "valid_node g' a" "valid_node g' b"
    by (simp_all only: valid_node_add_edge [OF assms])
  then obtain g'' where g'': "add_edge a b g' = Inr g''"
    using add_edge_total by blast
  have "g'' = g'"
    by (rule graph_eqI)
      (auto simp: add_edge_length [OF g''] neighbours_add_edge [OF g'' False]
        neighbours_add_edge [OF assms False])
  with g'' show ?thesis by simp
qed

text \<open>
  C10. Removing an edge a second time changes nothing: whenever \<open>remove_edge a b\<close>
  returns a graph, applying it again to that graph returns the same graph.
\<close>

theorem remove_edge_idem:
  assumes "remove_edge a b g = Inr g'"
  shows "remove_edge a b g' = Inr g'"
proof -
  from assms have "valid_node g a" "valid_node g b"
    by (simp_all add: remove_edge_eq_Inr_iff)
  then have "valid_node g' a" "valid_node g' b"
    by (simp_all only: valid_node_remove_edge [OF assms])
  then obtain g'' where g'': "remove_edge a b g' = Inr g''"
    using remove_edge_total by blast
  have "g'' = g'"
    by (rule graph_eqI)
      (auto simp: remove_edge_length [OF g''] neighbours_remove_edge [OF g'']
        neighbours_remove_edge [OF assms])
  with g'' show ?thesis by simp
qed

lemma simple_graph_add_edge:
  "add_edge (NodeId 0) (NodeId 1) simple_graph = Inr \<lparr>nodes =
     [{|NodeId 1, NodeId 2, NodeId 3|}, {|NodeId 0, NodeId 2, NodeId 3|},
      {|NodeId 0, NodeId 1, NodeId 3|}, {|NodeId 0, NodeId 1, NodeId 2|}]\<rparr>"
  by code_simp

lemma simple_graph_remove_edge:
  "remove_edge (NodeId 2) (NodeId 3) simple_graph = Inr \<lparr>nodes =
     [{|NodeId 2, NodeId 3|}, {|NodeId 2, NodeId 3|},
      {|NodeId 0, NodeId 1|}, {|NodeId 0, NodeId 1|}]\<rparr>"
  by code_simp

theorem add_edge_idem_witness:
  "add_edge (NodeId 0) (NodeId 1) simple_graph = Inr \<lparr>nodes =
     [{|NodeId 1, NodeId 2, NodeId 3|}, {|NodeId 0, NodeId 2, NodeId 3|},
      {|NodeId 0, NodeId 1, NodeId 3|}, {|NodeId 0, NodeId 1, NodeId 2|}]\<rparr> \<and>
   add_edge (NodeId 0) (NodeId 1) \<lparr>nodes =
     [{|NodeId 1, NodeId 2, NodeId 3|}, {|NodeId 0, NodeId 2, NodeId 3|},
      {|NodeId 0, NodeId 1, NodeId 3|}, {|NodeId 0, NodeId 1, NodeId 2|}]\<rparr> = Inr \<lparr>nodes =
     [{|NodeId 1, NodeId 2, NodeId 3|}, {|NodeId 0, NodeId 2, NodeId 3|},
      {|NodeId 0, NodeId 1, NodeId 3|}, {|NodeId 0, NodeId 1, NodeId 2|}]\<rparr>"
  using simple_graph_add_edge add_edge_idem [OF simple_graph_add_edge] by simp

theorem remove_edge_idem_witness:
  "remove_edge (NodeId 2) (NodeId 3) simple_graph = Inr \<lparr>nodes =
     [{|NodeId 2, NodeId 3|}, {|NodeId 2, NodeId 3|},
      {|NodeId 0, NodeId 1|}, {|NodeId 0, NodeId 1|}]\<rparr> \<and>
   remove_edge (NodeId 2) (NodeId 3) \<lparr>nodes =
     [{|NodeId 2, NodeId 3|}, {|NodeId 2, NodeId 3|},
      {|NodeId 0, NodeId 1|}, {|NodeId 0, NodeId 1|}]\<rparr> = Inr \<lparr>nodes =
     [{|NodeId 2, NodeId 3|}, {|NodeId 2, NodeId 3|},
      {|NodeId 0, NodeId 1|}, {|NodeId 0, NodeId 1|}]\<rparr>"
  using simple_graph_remove_edge remove_edge_idem [OF simple_graph_remove_edge] by simp

section \<open>Refinement of the abstract graph\<close>

lemma a_valid_abs [simp]: "a_valid (abs_graph g) a = valid_node g a"
  by (simp add: a_valid_def abs_graph_def valid_node_def)

lemma abs_graph_new: "abs_graph new = a_new"
  by (simp add: abs_graph_def a_new_def new_def default_graph_def neighbours_def valid_node_def)

lemma abs_graph_add_node: "map_prod id abs_graph (add_node g) = a_add_node (abs_graph g)"
  by (simp add: a_add_node_def abs_graph_def add_node_def tv_push_def
      neighbours_add_node [unfolded add_node_def tv_push_def, simplified])

lemma abs_graph_add_edge:
  "map_sum id abs_graph (add_edge a b g) = a_add_edge a b (abs_graph g)"
proof (cases "add_edge a b g")
  case (Inl e)
  show ?thesis
    unfolding Inl using Inl [unfolded add_edge_eq_Inl_iff] by (auto simp: a_add_edge_def)
next
  case (Inr g')
  show ?thesis
  proof (cases "a = b")
    case True
    then show ?thesis by (simp add: a_add_edge_def)
  next
    case False
    from Inr False have v: "valid_node g a" "valid_node g b"
      by (simp_all add: add_edge_eq_Inr_iff)
    have "abs_graph g' = (abs_graph g)\<lparr>a_edges := a_edges (abs_graph g) \<union> {(a, b), (b, a)}\<rparr>"
      by (auto simp: abs_graph_def add_edge_length [OF Inr] neighbours_add_edge [OF Inr False]
          split: if_splits)
    with Inr False v show ?thesis by (simp add: a_add_edge_def)
  qed
qed

lemma abs_graph_remove_edge:
  "map_sum id abs_graph (remove_edge a b g) = a_remove_edge a b (abs_graph g)"
proof (cases "remove_edge a b g")
  case (Inl e)
  show ?thesis
    unfolding Inl using Inl [unfolded remove_edge_eq_Inl_iff] by (auto simp: a_remove_edge_def)
next
  case (Inr g')
  from Inr have v: "valid_node g a" "valid_node g b"
    by (simp_all add: remove_edge_eq_Inr_iff)
  have "abs_graph g' = (abs_graph g)\<lparr>a_edges := a_edges (abs_graph g) - {(a, b), (b, a)}\<rparr>"
    by (auto simp: abs_graph_def remove_edge_length [OF Inr] neighbours_remove_edge [OF Inr]
        split: if_splits)
  with Inr v show ?thesis by (simp add: a_remove_edge_def)
qed

lemma abs_graph_apply_op:
  "map_sum id abs_graph (apply_op op g) = a_apply_op op (abs_graph g)"
proof (cases op)
  case AddNode
  have "snd (map_prod id abs_graph (add_node g)) = snd (a_add_node (abs_graph g))"
    by (simp only: abs_graph_add_node)
  with AddNode show ?thesis by simp
qed (simp_all add: abs_graph_add_edge abs_graph_remove_edge)

text \<open>
  C8. Any sequence of calls to \<open>add_node\<close>, \<open>add_edge\<close> and \<open>remove_edge\<close> on a
  graph does to its node count and edge relation exactly what the abstract
  operations do, and it panics (at the first out-of-range handle of an \<open>add_edge\<close>
  with distinct handles or of a \<open>remove_edge\<close>) exactly when the abstract run does.
\<close>

theorem run_ops_refines:
  "map_sum id abs_graph (run_ops ops g) = a_run_ops ops (abs_graph g)"
  unfolding run_ops_def a_run_ops_def
proof (induction ops arbitrary: g)
  case Nil
  show ?case by simp
next
  case (Cons op ops)
  show ?case
  proof (cases "apply_op op g")
    case (Inl e)
    with abs_graph_apply_op [of op g] have "a_apply_op op (abs_graph g) = Inl e" by simp
    with Inl show ?thesis by simp
  next
    case (Inr g')
    with abs_graph_apply_op [of op g] have "a_apply_op op (abs_graph g) = Inr (abs_graph g')"
      by simp
    with Inr Cons.IH [of g'] show ?thesis by simp
  qed
qed

section \<open>Reachable graphs\<close>

lemma reachable_inv: "reachable g \<Longrightarrow> graph_inv g"
proof (induction rule: reachable.induct)
  case init
  show ?case by (simp add: graph_inv_def graph_ok_new loop_free_new)
next
  case (step g op g')
  then show ?case by (blast intro: graph_inv_apply_op)
qed

text \<open>
  C5. In every graph that can be built from \<open>new\<close> by calls to \<open>add_node\<close>,
  \<open>add_edge\<close> and \<open>remove_edge\<close> that return, each neighbour of a node is a node,
  adjacency is symmetric, and no node is its own neighbour.
\<close>

theorem reachable_graph_inv:
  assumes "reachable g"
  shows "(b \<in> neighbours g a \<longleftrightarrow> a \<in> neighbours g b) \<and> a \<notin> neighbours g a \<and>
    (b \<in> neighbours g a \<longrightarrow> valid_node g a \<and> valid_node g b)"
  using reachable_inv [OF assms]
  unfolding graph_inv_def graph_ok_def loop_free_def by blast

lemma reachable_run_ops: "reachable g \<Longrightarrow> run_ops ops g = Inr g' \<Longrightarrow> reachable g'"
  unfolding run_ops_def
  by (induction ops arbitrary: g) (auto simp: bindr_eq_Inr_iff intro: reachable.step)

lemma reachable_iff_run_ops: "reachable g \<longleftrightarrow> (\<exists>ops. run_ops ops new = Inr g)"
proof
  assume "reachable g"
  then show "\<exists>ops. run_ops ops new = Inr g"
  proof (induction rule: reachable.induct)
    case init
    have "run_ops [] new = Inr new" by (simp add: run_ops_def)
    then show ?case by blast
  next
    case (step g op g')
    then obtain ops where "run_ops ops new = Inr g" by blast
    with step.hyps(2) have "run_ops (ops @ [op]) new = Inr g'"
      by (simp add: run_ops_def for_each_append)
    then show ?case by blast
  qed
next
  assume "\<exists>ops. run_ops ops new = Inr g"
  then show "reachable g"
    by (auto intro: reachable_run_ops reachable.init)
qed

text \<open>
  C24. \<open>check_invariants\<close> never panics on a graph built through the interface: the
  failure that its documentation calls impossible is impossible.
\<close>

theorem reachable_check_invariants: "reachable g \<Longrightarrow> check_invariants g = Inr ()"
  by (drule reachable_inv) (simp add: check_invariants_decides graph_inv_def)

lemma run_simple_ops: "run_ops simple_ops new = Inr simple_graph"
  by code_simp

lemma reachable_simple_graph: "reachable simple_graph"
  using run_simple_ops by (auto simp: reachable_iff_run_ops)

theorem reachable_graph_inv_witness:
  "reachable simple_graph \<and>
   NodeId 3 \<in> neighbours simple_graph (NodeId 0) \<and>
   NodeId 0 \<in> neighbours simple_graph (NodeId 3) \<and>
   NodeId 0 \<notin> neighbours simple_graph (NodeId 0) \<and>
   valid_node simple_graph (NodeId 0) \<and> valid_node simple_graph (NodeId 3)"
proof -
  have "NodeId 3 \<in> neighbours simple_graph (NodeId 0)"
    by (simp add: neighbours_def valid_node_def simple_graph_def)
  with reachable_simple_graph
    reachable_graph_inv [OF reachable_simple_graph, of "NodeId 3" "NodeId 0"]
  show ?thesis by simp
qed

theorem run_ops_refines_witness:
  "a_run_ops simple_ops a_new = Inr (abs_graph simple_graph) \<and>
   a_run_ops [AddNode, AddEdge (NodeId 0) (NodeId 1)] a_new = Inl IndexOutOfBounds"
proof -
  have "run_ops [AddNode, AddEdge (NodeId 0) (NodeId 1)] new = Inl IndexOutOfBounds"
    by code_simp
  with run_ops_refines [of simple_ops new]
    run_ops_refines [of "[AddNode, AddEdge (NodeId 0) (NodeId 1)]" new]
  show ?thesis by (simp add: run_simple_ops abs_graph_new)
qed

theorem reachable_check_invariants_witness:
  "reachable simple_graph \<and> check_invariants simple_graph = Inr ()"
  using reachable_simple_graph reachable_check_invariants [OF reachable_simple_graph]
  by (rule conjI)

section \<open>Panics, fresh handles and round trips\<close>

text \<open>
  C21. The panics of the interface: \<open>add_node\<close> never panics; \<open>add_edge\<close> panics
  exactly when the two handles differ and one of them is not a node (equal handles
  return even when they are not a node); \<open>remove_edge\<close> panics exactly when one of the
  handles is not a node. The panic is always the one of indexing past the end.
\<close>

theorem apply_op_panics:
  "apply_op op g = Inl e \<longleftrightarrow>
     e = IndexOutOfBounds \<and>
     (case op of
        AddNode \<Rightarrow> False
      | AddEdge a b \<Rightarrow> a \<noteq> b \<and> \<not> (valid_node g a \<and> valid_node g b)
      | RemoveEdge a b \<Rightarrow> \<not> (valid_node g a \<and> valid_node g b))"
  by (cases op) (auto simp: add_edge_eq_Inl_iff remove_edge_eq_Inl_iff)

text \<open>
  C23. \<open>add_node\<close> returns the handle whose index is the number of nodes so far; the
  handle was not a node before and is one afterwards, with no neighbour; every older
  node is smaller in the order of the handles and keeps its neighbours.
\<close>

theorem add_node_spec:
  assumes "add_node g = (a, g')"
  shows "a = NodeId (length (nodes g)) \<and> \<not> valid_node g a \<and> valid_node g' a \<and>
    neighbours g' a = {} \<and> length (nodes g') = Suc (length (nodes g)) \<and>
    (\<forall>c. valid_node g c \<longrightarrow> c < a \<and> valid_node g' c \<and> neighbours g' c = neighbours g c)"
proof -
  from assms have a: "a = NodeId (length (nodes g))" and g': "g' = snd (add_node g)"
    using add_node_fresh [of g] by simp_all
  have "c < a" if "valid_node g c" for c
    using that unfolding a by (cases c) (simp add: valid_node_def)
  moreover have "neighbours g' a = {}"
    unfolding a g' neighbours_add_node by (simp add: neighbours_def valid_node_def)
  ultimately show ?thesis
    unfolding g'
    by (simp add: a valid_node_add_node add_node_nodes add_node_fresh) (simp add: valid_node_def)
qed

text \<open>
  C22. Removing an edge that has just been added to a graph in which the two nodes were
  not adjacent gives the graph back.
\<close>

theorem add_remove_edge_roundtrip:
  assumes "valid_node g a" and "valid_node g b"
    and "b \<notin> neighbours g a" and "a \<notin> neighbours g b"
  shows "bindr (add_edge a b g) (remove_edge a b) = Inr g"
proof -
  from add_edge_total [OF assms(1,2)] obtain g1 where g1: "add_edge a b g = Inr g1" by blast
  then have valid1: "valid_node g1 a" "valid_node g1 b"
    using assms(1,2) by (simp_all add: valid_node_add_edge)
  from remove_edge_total [OF valid1] obtain g2 where g2: "remove_edge a b g1 = Inr g2" by blast
  have "g2 = g"
  proof (rule graph_eqI)
    from g1 g2 show "length (nodes g2) = length (nodes g)"
      by (simp add: add_edge_length remove_edge_length)
  next
    fix c
    show "neighbours g2 c = neighbours g c"
    proof (cases "a = b")
      case True
      with g1 have "g1 = g" by simp
      with g2 assms(3,4) True show ?thesis by (auto simp: neighbours_remove_edge)
    next
      case False
      with g1 g2 assms(3,4) show ?thesis
        by (auto simp: neighbours_remove_edge neighbours_add_edge)
    qed
  qed
  with g1 g2 show ?thesis by simp
qed

text \<open>
  C32. Edges are undirected: \<open>add_edge\<close> and \<open>remove_edge\<close> do the same, panics
  included, when their two handles are exchanged.
\<close>

theorem edge_ops_symmetric:
  "add_edge a b g = add_edge b a g \<and> remove_edge a b g = remove_edge b a g"
proof (cases "a = b")
  case True
  then show ?thesis by simp
next
  case False
  then have "as_index a \<noteq> as_index b" by simp
  then show ?thesis
    by (auto simp: add_edge_def remove_edge_def tv_modify_def
        list_update_swap [of "as_index a" "as_index b"])
qed

theorem add_node_spec_witness:
  "add_node simple_graph = (NodeId 4, \<lparr>nodes = nodes simple_graph @ [{||}]\<rparr>) \<and>
   \<not> valid_node simple_graph (NodeId 4) \<and>
   valid_node \<lparr>nodes = nodes simple_graph @ [{||}]\<rparr> (NodeId 4) \<and>
   neighbours \<lparr>nodes = nodes simple_graph @ [{||}]\<rparr> (NodeId 4) = {}"
proof -
  have eq: "add_node simple_graph = (NodeId 4, \<lparr>nodes = nodes simple_graph @ [{||}]\<rparr>)"
    by (simp add: add_node_def tv_push_def bs_new_def simple_graph_def)
  from add_node_spec [OF eq] eq show ?thesis by simp
qed

theorem add_remove_edge_roundtrip_witness:
  "bindr (add_edge (NodeId 0) (NodeId 1) simple_graph) (remove_edge (NodeId 0) (NodeId 1)) =
     Inr simple_graph"
  by (rule add_remove_edge_roundtrip)
    (simp_all add: valid_node_def neighbours_def simple_graph_def)

end
