(* ===== verification/Elimination.thy ===== *)
theory Elimination
  imports Graph
begin

text \<open>
  The first phase of \<open>Graph::minimal_coloring\<close> (\<open>src/lib.rs\<close>, lines 77 to 105): the
  nodes are removed one by one from a working copy of the adjacency sets, each time the
  first living node with fewer than \<open>k\<close> living neighbours; when no such node exists,
  \<open>k\<close> becomes one more than the least number of living neighbours.

  The local variables \<open>k\<close>, \<open>stack\<close>, \<open>graph\<close> and \<open>alive\<close> are the fields
  \<open>es_k\<close>, \<open>es_stack\<close>, \<open>es_graph\<close> and \<open>es_alive\<close> of the record \<open>elim_state\<close>.
  The \<open>Vec\<close> \<open>stack\<close> is a list with its top at the head, so \<open>push\<close> is \<open>#\<close>.
  \<^item> \<open>scan\<close> is the \<open>for node in alive.iter()\<close> loop: it ends early with \<open>Found node\<close>
    (the \<open>continue 'outer\<close>) or runs to the end with \<open>NotFound min_k\<close>.
  \<^item> \<open>eliminate\<close> is the body of the \<open>if connected < k\<close> branch.
  \<^item> \<open>elim_round\<close> is one iteration of the \<open>'outer\<close> loop and \<open>elim_loop\<close> the loop
    itself. Nothing in the loop's text bounds the number of iterations, so
    \<open>elim_loop\<close> is a function into \<open>option\<close>, \<open>None\<close> standing for a run that does
    not end; \<open>elim_loop_total\<close> proves that it ends on every state that satisfies the
    invariant, when the vector is shorter than \<open>usize_max\<close>. Theory \<open>Runs\<close> holds
    the loop as a transition system and its other formulations.

  The lemmas: what \<open>scan\<close> returns (the first node of small degree in ascending order,
  or the least degree plus one); what \<open>eliminate\<close> does to the working graph; the
  invariant \<open>elim_inv\<close> that relates the state to the original adjacency sets, kept by
  every round (\<open>elim_round_cases\<close>); the measure that every round decreases; a rule
  for properties of the loop (\<open>elim_loop_rule\<close>); the facts about the final state that
  the second phase needs (\<open>elim_cert\<close>: each node on the stack had fewer than \<open>k\<close>
  neighbours among the nodes above it and itself); and that the final \<open>k\<close> is
  justified by a set of nodes in which every node has at least \<open>k - 1\<close> neighbours
  (\<open>dense_core\<close>), so that no elimination order has a smaller bound.
\<close>

section \<open>State and operations\<close>

record elim_state =
  es_k :: nat
  es_stack :: "NodeId list"
  es_graph :: "NodeId bitset list"
  es_alive :: "NodeId bitset"

datatype scan_result = Found NodeId | NotFound nat

fun scan :: "NodeId bitset list \<Rightarrow> nat \<Rightarrow> NodeId list \<Rightarrow> nat \<Rightarrow> scan_result result" where
  "scan graph k [] min_k = Inr (NotFound min_k)"
| "scan graph k (node # rest) min_k =
     bindr (tv_index graph (as_index node)) (\<lambda>adj.
       let connected = bs_element_count adj in
       if connected < k then Inr (Found node)
       else if connected + 1 < min_k then scan graph k rest (connected + 1)
       else scan graph k rest min_k)"

definition eliminate :: "NodeId \<Rightarrow> elim_state \<Rightarrow> elim_state result" where
  "eliminate node st =
     (let alive' = bs_remove node (es_alive st);
          stack' = node # es_stack st
      in bindr (for_each (bs_iter alive') (\<lambda>other. tv_modify (as_index other) (bs_remove node))
                  (es_graph st))
           (\<lambda>graph'. Inr (st\<lparr>es_stack := stack', es_graph := graph', es_alive := alive'\<rparr>)))"

definition elim_round :: "elim_state \<Rightarrow> elim_state result" where
  "elim_round st =
     bindr (scan (es_graph st) (es_k st) (bs_iter (es_alive st)) usize_max)
       (\<lambda>r. case r of
          Found node \<Rightarrow> eliminate node st
        | NotFound min_k \<Rightarrow> Inr (st\<lparr>es_k := min_k\<rparr>))"

partial_function (option) elim_loop :: "elim_state \<Rightarrow> elim_state result option" where
  "elim_loop st =
     (if bs_is_empty (es_alive st) then Some (Inr st)
      else case elim_round st of
        Inl e \<Rightarrow> Some (Inl e)
      | Inr st' \<Rightarrow> elim_loop st')"

declare elim_loop.simps [code]

definition elim_init :: "NodeId bitset list \<Rightarrow> elim_state" where
  "elim_init ns =
     \<lparr>es_k = 0, es_stack = [], es_graph = ns, es_alive = bs_collect (index_iter ns)\<rparr>"

section \<open>Degrees and the invariant\<close>

definition degree :: "NodeId bitset list \<Rightarrow> NodeId \<Rightarrow> nat" where
  "degree w a = bs_element_count (w ! as_index a)"

definition max_degree :: "NodeId bitset list \<Rightarrow> nat" where
  "max_degree w = fold max (map bs_element_count w) 0"

definition adj_bounded :: "NodeId bitset list \<Rightarrow> bool" where
  "adj_bounded w \<longleftrightarrow> (\<forall>i < length w. \<forall>b \<in> fset (w ! i). as_index b < length w)"

fun elim_cert :: "NodeId bitset list \<Rightarrow> NodeId bitset list \<Rightarrow> nat \<Rightarrow> NodeId list \<Rightarrow> bool" where
  "elim_cert orig w k [] \<longleftrightarrow> True"
| "elim_cert orig w k (v # rest) \<longleftrightarrow>
     fset (w ! as_index v) = fset (orig ! as_index v) - set rest \<and>
     degree w v < k \<and> elim_cert orig w k rest"

definition elim_inv :: "NodeId bitset list \<Rightarrow> elim_state \<Rightarrow> bool" where
  "elim_inv orig st \<longleftrightarrow>
     length (es_graph st) = length orig \<and>
     distinct (es_stack st) \<and>
     fset (es_alive st) = {a. as_index a < length orig} - set (es_stack st) \<and>
     set (es_stack st) \<subseteq> {a. as_index a < length orig} \<and>
     (\<forall>a \<in> fset (es_alive st).
        fset (es_graph st ! as_index a) = fset (orig ! as_index a) - set (es_stack st)) \<and>
     elim_cert orig (es_graph st) (es_k st) (es_stack st) \<and>
     es_k st \<le> max_degree orig + 1"

definition elim_measure :: "elim_state \<Rightarrow> nat" where
  "elim_measure st =
     2 * bs_element_count (es_alive st) +
     (if \<exists>a \<in> fset (es_alive st). degree (es_graph st) a < es_k st then 0 else 1)"

text \<open>
  \<open>dense_core orig k\<close>: the bound \<open>k\<close> is not larger than needed. Either it is still
  \<open>0\<close>, or some non-empty set of nodes induces a subgraph in which every node has at
  least \<open>k - 1\<close> neighbours; then every elimination order meets a node with at least
  \<open>k - 1\<close> neighbours that are not yet removed.
\<close>

definition dense_core :: "NodeId bitset list \<Rightarrow> nat \<Rightarrow> bool" where
  "dense_core orig k \<longleftrightarrow>
     k = 0 \<or> (\<exists>S. S \<noteq> {} \<and> S \<subseteq> {a. as_index a < length orig} \<and>
                (\<forall>a \<in> S. k \<le> card (fset (orig ! as_index a) \<inter> S) + 1))"

section \<open>The scan\<close>

lemma fold_min_eq_Min:
  "fold (\<lambda>a m. min m (f a)) xs (m :: nat) = Min (insert m (f ` set xs))"
proof (induction xs arbitrary: m)
  case Nil
  show ?case by simp
next
  case (Cons x xs)
  have "Min (insert (min m (f x)) (f ` set xs)) = Min (insert m (insert (f x) (f ` set xs)))"
    by (cases "xs = []") (simp_all add: Min_insert2 min.assoc min.commute min.left_commute)
  with Cons.IH [of "min m (f x)"] show ?case by simp
qed

text \<open>
  On nodes inside the vector the scan does not panic: it returns the first node, in the
  order of the list, with fewer than \<open>k\<close> neighbours, and when there is none, the least
  of \<open>min_k\<close> and the successors of the degrees.
\<close>

lemma scan_eq:
  assumes "\<forall>a \<in> set xs. as_index a < length w"
  shows "scan w k xs m =
    Inr (case List.find (\<lambda>a. degree w a < k) xs of
           Some a \<Rightarrow> Found a
         | None \<Rightarrow> NotFound (fold (\<lambda>a m. min m (degree w a + 1)) xs m))"
  using assms
proof (induction xs arbitrary: m)
  case Nil
  show ?case by simp
next
  case (Cons x xs)
  then have "as_index x < length w" and IH: "\<And>m. scan w k xs m =
    Inr (case List.find (\<lambda>a. degree w a < k) xs of
           Some a \<Rightarrow> Found a
         | None \<Rightarrow> NotFound (fold (\<lambda>a m. min m (degree w a + 1)) xs m))"
    by simp_all
  then show ?case
    by (simp add: tv_index_Inr Let_def min_def not_less flip: degree_def split: option.split)
qed

lemma scan_panic:
  assumes "\<forall>a \<in> set xs. as_index a < length w \<and> \<not> degree w a < k"
    and "\<not> as_index y < length w"
  shows "scan w k (xs @ y # ys) m = Inl IndexOutOfBounds"
  using assms
  by (induction xs arbitrary: m) (simp_all add: tv_index_Inr tv_index_Inl degree_def Let_def)

lemma scan_Found:
  assumes "\<forall>a \<in> set xs. as_index a < length w" and "scan w k xs m = Inr (Found a)"
  shows "a \<in> set xs" and "degree w a < k"
    and "\<exists>i < length xs. xs ! i = a \<and> (\<forall>j < i. \<not> degree w (xs ! j) < k)"
  using assms(2) unfolding scan_eq [OF assms(1)]
  by (auto split: option.splits simp: find_Some_iff)

lemma scan_NotFound:
  assumes "\<forall>a \<in> set xs. as_index a < length w" and "scan w k xs m = Inr (NotFound m')"
  shows "\<forall>a \<in> set xs. \<not> degree w a < k"
    and "m' = Min (insert m ((\<lambda>a. degree w a + 1) ` set xs))"
  using assms(2) unfolding scan_eq [OF assms(1)]
  by (auto split: option.splits simp: find_None_iff fold_min_eq_Min)

lemma scan_cases:
  assumes "\<forall>a \<in> set xs. as_index a < length w"
  obtains a where "scan w k xs m = Inr (Found a)"
  | m' where "scan w k xs m = Inr (NotFound m')"
proof (cases "List.find (\<lambda>a. degree w a < k) xs")
  case None
  then show thesis using that(2) by (simp add: scan_eq [OF assms])
next
  case (Some a)
  then show thesis using that(1) by (simp add: scan_eq [OF assms])
qed

section \<open>Degrees\<close>

lemma fold_max_eq_Max: "fold max xs (m :: nat) = Max (insert m (set xs))"
  by (metis Max.set_eq_fold list.simps(15))

lemma degree_le_max_degree: "as_index a < length w \<Longrightarrow> degree w a \<le> max_degree w"
  by (simp add: degree_def max_degree_def fold_max_eq_Max)

lemma max_degree_cases:
  obtains "max_degree w = 0" | a where "as_index a < length w" "degree w a = max_degree w"
proof -
  have "max_degree w \<in> insert 0 (set (map bs_element_count w))"
    unfolding max_degree_def fold_max_eq_Max by (rule Max_in) simp_all
  then consider "max_degree w = 0" | i where "i < length w" "bs_element_count (w ! i) = max_degree w"
    by (auto simp: in_set_conv_nth)
  then show thesis
  proof cases
    case 1
    then show thesis by (rule that(1))
  next
    case (2 i)
    then show thesis using that(2) [of "NodeId i"] by (simp add: degree_def)
  qed
qed

lemma degree_mono: "fset (w ! as_index a) \<subseteq> fset (w' ! as_index a) \<Longrightarrow> degree w a \<le> degree w' a"
  by (simp add: degree_def bs_element_count_mono)

lemma adj_bounded_degree_le:
  assumes "adj_bounded w" and "as_index a < length w"
  shows "degree w a \<le> length w"
proof -
  from assms have "fset (w ! as_index a) \<subseteq> NodeId ` {0..<length w}"
    by (auto simp: adj_bounded_def NodeId_as_index_image)
  then have "card (fset (w ! as_index a)) \<le> card (NodeId ` {0..<length w})"
    by (intro card_mono) simp_all
  also have "\<dots> \<le> length w" by (metis card_image_le card_atLeastLessThan diff_zero finite_atLeastLessThan)
  finally show ?thesis by (simp add: degree_def bs_element_count_card)
qed

lemma adj_bounded_max_degree_le: "adj_bounded w \<Longrightarrow> max_degree w \<le> length w"
  by (rule max_degree_cases [of w]) (auto dest: adj_bounded_degree_le)

section \<open>Removing a node\<close>

lemma as_index_image_iff [simp]: "i \<in> as_index ` A \<longleftrightarrow> NodeId i \<in> A"
  by (force simp: image_iff)

lemma distinct_map_as_index [simp]: "distinct (map as_index xs) \<longleftrightarrow> distinct xs"
  by (simp add: distinct_map inj_on_def)

text \<open>
  \<open>eliminate\<close>, when every living node is inside the vector: the node leaves \<open>alive\<close>,
  goes on top of the stack, and is deleted from the adjacency set of every node that
  is still alive. Its own adjacency set, and those of the nodes on the stack, stay as
  they are.
\<close>

lemma eliminate_eq:
  assumes "\<forall>a \<in> fset (es_alive st). as_index a < length (es_graph st)"
  shows "eliminate node st = Inr (st\<lparr>
      es_stack := node # es_stack st,
      es_graph := map (\<lambda>i. if NodeId i \<in> fset (es_alive st) - {node}
                            then bs_remove node (es_graph st ! i) else es_graph st ! i)
                    [0..<length (es_graph st)],
      es_alive := bs_remove node (es_alive st)\<rparr>)"
proof -
  have "for_each (bs_iter (bs_remove node (es_alive st)))
      (\<lambda>other. tv_modify (as_index other) (bs_remove node)) (es_graph st) =
    Inr (map (\<lambda>i. if i \<in> as_index ` set (bs_iter (bs_remove node (es_alive st)))
                   then bs_remove node (es_graph st ! i) else es_graph st ! i)
          [0..<length (es_graph st)])"
    using assms by (intro for_each_tv_modify) simp_all
  then show ?thesis by (simp add: eliminate_def Let_def)
qed

lemma eliminate_panic:
  assumes "a \<in> fset (es_alive st)" and "a \<noteq> node" and "\<not> as_index a < length (es_graph st)"
  shows "eliminate node st = Inl IndexOutOfBounds"
proof -
  let ?xs = "bs_iter (bs_remove node (es_alive st))"
  from assms have "a \<in> set ?xs" by simp
  with assms(3) obtain ps y qs where "?xs = ps @ y # qs"
    "\<not> as_index y < length (es_graph st)" "\<forall>p \<in> set ps. as_index p < length (es_graph st)"
    using split_list_first_prop [of ?xs "\<lambda>u. \<not> as_index u < length (es_graph st)"] by blast
  moreover from this(1) have "distinct (map as_index ps)"
    by (metis distinct_append distinct_bs_iter distinct_map_as_index)
  ultimately have "for_each ?xs (\<lambda>other. tv_modify (as_index other) (bs_remove node))
      (es_graph st) = Inl IndexOutOfBounds"
    by (simp add: for_each_tv_modify_panic)
  then show ?thesis by (simp add: eliminate_def Let_def)
qed

section \<open>The invariant is kept\<close>

lemma elim_cert_cong:
  "\<forall>v \<in> set stack. w' ! as_index v = w ! as_index v \<Longrightarrow>
    elim_cert orig w' k stack = elim_cert orig w k stack"
  by (induction stack) (auto simp: degree_def)

lemma elim_cert_mono: "elim_cert orig w k stack \<Longrightarrow> k \<le> k' \<Longrightarrow> elim_cert orig w k' stack"
  by (induction stack) auto

lemma elim_inv_init: "elim_inv orig (elim_init orig)"
  by (simp add: elim_inv_def elim_init_def)

lemma elim_inv_alive_valid:
  "elim_inv orig st \<Longrightarrow> a \<in> fset (es_alive st) \<Longrightarrow> as_index a < length (es_graph st)"
  by (simp add: elim_inv_def)

lemma elim_inv_degree_le:
  assumes "elim_inv orig st" and "a \<in> fset (es_alive st)"
  shows "degree (es_graph st) a \<le> max_degree orig"
proof -
  from assms have "degree (es_graph st) a \<le> degree orig a"
    by (intro degree_mono) (auto simp: elim_inv_def)
  also from assms have "\<dots> \<le> max_degree orig"
    by (intro degree_le_max_degree) (simp add: elim_inv_def)
  finally show ?thesis .
qed

text \<open>Removing a living node of degree below \<open>k\<close> keeps the invariant.\<close>

lemma eliminate_inv:
  assumes inv: "elim_inv orig st" and node: "node \<in> fset (es_alive st)"
    and deg: "degree (es_graph st) node < es_k st"
  obtains st' where "eliminate node st = Inr st'" and "elim_inv orig st'"
    and "es_alive st' = bs_remove node (es_alive st)" and "es_k st' = es_k st"
    and "es_stack st' = node # es_stack st"
proof -
  let ?w = "es_graph st"
  let ?w' = "map (\<lambda>i. if NodeId i \<in> fset (es_alive st) - {node}
      then bs_remove node (?w ! i) else ?w ! i) [0..<length ?w]"
  let ?st' = "st\<lparr>es_stack := node # es_stack st, es_graph := ?w',
      es_alive := bs_remove node (es_alive st)\<rparr>"
  from inv have valid: "\<forall>a \<in> fset (es_alive st). as_index a < length ?w"
    by (simp add: elim_inv_def)
  then have eq: "eliminate node st = Inr ?st'" by (rule eliminate_eq)
  have nth: "?w' ! as_index a =
      (if a \<in> fset (es_alive st) - {node} then bs_remove node (?w ! as_index a)
       else ?w ! as_index a)" if "as_index a < length ?w" for a
    using that by simp
  from inv node have node_valid: "as_index node < length ?w" and fresh: "node \<notin> set (es_stack st)"
    by (auto simp: elim_inv_def)
  from inv have stack_valid: "\<forall>v \<in> set (es_stack st). as_index v < length ?w"
    and stack_dead: "\<forall>v \<in> set (es_stack st). v \<notin> fset (es_alive st)"
    by (auto simp: elim_inv_def)
  have "elim_cert orig ?w' (es_k st) (es_stack st) = elim_cert orig ?w (es_k st) (es_stack st)"
    using stack_valid stack_dead by (intro elim_cert_cong) (simp add: nth)
  with inv have cert: "elim_cert orig ?w' (es_k st) (es_stack st)"
    by (simp add: elim_inv_def)
  have top: "?w' ! as_index node = ?w ! as_index node"
    using node_valid by (simp add: nth)
  from inv node have "fset (?w ! as_index node) = fset (orig ! as_index node) - set (es_stack st)"
    by (simp add: elim_inv_def)
  with top deg cert have cert': "elim_cert orig ?w' (es_k st) (node # es_stack st)"
    by (simp add: degree_def)
  have alive': "fset (?w' ! as_index a) = fset (orig ! as_index a) - set (node # es_stack st)"
    if "a \<in> fset (es_alive st)" "a \<noteq> node" for a
    using that inv valid by (auto simp: nth elim_inv_def)
  have "elim_inv orig ?st'"
    unfolding elim_inv_def
    using inv node fresh cert' alive' by (auto simp: elim_inv_def)
  with eq show thesis by (intro that [of ?st']) simp_all
qed

text \<open>
  Raising \<open>k\<close> when no living node has degree below \<open>k\<close>: the new \<open>k\<close> is one more
  than the least degree of a living node, the invariant is kept, and some living node
  now has degree below \<open>k\<close>.
\<close>

lemma raise_k_inv:
  assumes inv: "elim_inv orig st" and ne: "fset (es_alive st) \<noteq> {}"
    and none: "\<forall>a \<in> fset (es_alive st). \<not> degree (es_graph st) a < es_k st"
    and small: "max_degree orig < usize_max"
    and m: "m = Min (insert usize_max ((\<lambda>a. degree (es_graph st) a + 1) ` fset (es_alive st)))"
  shows "elim_inv orig (st\<lparr>es_k := m\<rparr>)"
    and "\<exists>a \<in> fset (es_alive st). degree (es_graph st) a < m"
    and "m = Min ((\<lambda>a. degree (es_graph st) a + 1) ` fset (es_alive st))"
    and "es_k st < m"
proof -
  let ?D = "(\<lambda>a. degree (es_graph st) a + 1) ` fset (es_alive st)"
  have fin: "finite ?D" and D_ne: "?D \<noteq> {}" using ne by simp_all
  have le: "d \<le> usize_max" if "d \<in> ?D" for d
    using that small elim_inv_degree_le [OF inv] by fastforce
  then have "Min ?D \<le> usize_max" using fin D_ne by (meson Min_in)
  then show m_eq: "m = Min ?D"
    unfolding m using fin D_ne by (simp add: min_absorb2)
  then have "m \<in> ?D" using fin D_ne by (metis Min_in)
  then obtain a0 where a0: "a0 \<in> fset (es_alive st)" "m = degree (es_graph st) a0 + 1"
    by auto
  then show "\<exists>a \<in> fset (es_alive st). degree (es_graph st) a < m" by auto
  from a0 none show k_less: "es_k st < m" by force
  from a0 have "m \<le> max_degree orig + 1"
    using elim_inv_degree_le [OF inv a0(1)] by simp
  with inv k_less show "elim_inv orig (st\<lparr>es_k := m\<rparr>)"
    by (auto simp: elim_inv_def intro: elim_cert_mono)
qed

section \<open>One round of the outer loop\<close>

text \<open>
  C16. The tie-break: when some living node has fewer than \<open>k\<close> neighbours, the round
  removes the least such node in the order of the identifiers.
\<close>

lemma elim_round_Found:
  assumes "\<forall>a \<in> fset (es_alive st). as_index a < length (es_graph st)"
    and "a \<in> fset (es_alive st)" and "degree (es_graph st) a < es_k st"
    and "\<forall>b \<in> fset (es_alive st). b < a \<longrightarrow> \<not> degree (es_graph st) b < es_k st"
  shows "elim_round st = eliminate a st"
proof -
  let ?xs = "bs_iter (es_alive st)"
  let ?P = "\<lambda>a. degree (es_graph st) a < es_k st"
  from assms(2) obtain i where i: "i < length ?xs" "?xs ! i = a"
    by (metis in_set_conv_nth set_bs_iter)
  have "\<not> ?P (?xs ! j)" if "j < i" for j
  proof -
    from that i have "?xs ! j < ?xs ! i"
      by (metis distinct_bs_iter sorted_bs_iter sorted_wrt_nth_less strict_sorted_iff)
    with that i assms(4) show ?thesis by (metis less_trans nth_mem set_bs_iter)
  qed
  with i assms(3) have "List.find ?P ?xs = Some a"
    by (auto simp: find_Some_iff)
  with assms(1) show ?thesis by (simp add: elim_round_def scan_eq)
qed

lemma elim_round_NotFound:
  assumes "\<forall>a \<in> fset (es_alive st). as_index a < length (es_graph st)"
    and "\<forall>a \<in> fset (es_alive st). \<not> degree (es_graph st) a < es_k st"
  shows "elim_round st = Inr (st\<lparr>es_k :=
    Min (insert usize_max ((\<lambda>a. degree (es_graph st) a + 1) ` fset (es_alive st)))\<rparr>)"
proof -
  have "List.find (\<lambda>a. degree (es_graph st) a < es_k st) (bs_iter (es_alive st)) = None"
    using assms(2) by (simp add: find_None_iff)
  with assms(1) show ?thesis by (simp add: elim_round_def scan_eq fold_min_eq_Min)
qed

text \<open>
  Every round on a state with a living node returns, keeps the invariant, does not lower
  \<open>k\<close>, and decreases the measure: either a node is removed, or \<open>k\<close> is raised so that
  the next round removes one.
\<close>

lemma elim_round_cases:
  assumes inv: "elim_inv orig st" and ne: "es_alive st \<noteq> {||}"
    and small: "max_degree orig < usize_max"
  obtains (Removed) a st' where "a \<in> fset (es_alive st)" and "degree (es_graph st) a < es_k st"
      and "elim_round st = Inr st'" and "elim_inv orig st'"
      and "es_alive st' = bs_remove a (es_alive st)" and "es_k st' = es_k st"
      and "es_stack st' = a # es_stack st"
  | (Raised) m where "\<forall>a \<in> fset (es_alive st). \<not> degree (es_graph st) a < es_k st"
      and "m = Min ((\<lambda>a. degree (es_graph st) a + 1) ` fset (es_alive st))"
      and "elim_round st = Inr (st\<lparr>es_k := m\<rparr>)" and "elim_inv orig (st\<lparr>es_k := m\<rparr>)"
      and "\<exists>a \<in> fset (es_alive st). degree (es_graph st) a < m" and "es_k st < m"
proof -
  let ?xs = "bs_iter (es_alive st)"
  from inv have valid: "\<forall>a \<in> set ?xs. as_index a < length (es_graph st)"
    by (simp add: elim_inv_def)
  from ne have ne': "fset (es_alive st) \<noteq> {}" by simp
  show thesis
  proof (rule scan_cases [OF valid, of "es_k st" usize_max])
    fix a
    assume s: "scan (es_graph st) (es_k st) ?xs usize_max = Inr (Found a)"
    from scan_Found(1,2) [OF valid s] have a: "a \<in> fset (es_alive st)"
      "degree (es_graph st) a < es_k st" by simp_all
    from eliminate_inv [OF inv a] obtain st' where st': "eliminate a st = Inr st'"
      "elim_inv orig st'" "es_alive st' = bs_remove a (es_alive st)" "es_k st' = es_k st"
      "es_stack st' = a # es_stack st"
      by blast
    from s st'(1) have r: "elim_round st = Inr st'" by (simp add: elim_round_def)
    show thesis by (rule Removed [OF a r st'(2-)])
  next
    fix m
    assume s: "scan (es_graph st) (es_k st) ?xs usize_max = Inr (NotFound m)"
    from scan_NotFound [OF valid s]
    have none: "\<forall>a \<in> fset (es_alive st). \<not> degree (es_graph st) a < es_k st"
      and m: "m = Min (insert usize_max ((\<lambda>a. degree (es_graph st) a + 1) ` fset (es_alive st)))"
      by simp_all
    note raise = raise_k_inv [OF inv ne' none small m]
    from s have "elim_round st = Inr (st\<lparr>es_k := m\<rparr>)" by (simp add: elim_round_def)
    with none raise show thesis by (intro Raised [of m]) simp_all
  qed
qed

lemma elim_round_step:
  assumes inv: "elim_inv orig st" and ne: "es_alive st \<noteq> {||}"
    and small: "max_degree orig < usize_max"
  obtains st' where "elim_round st = Inr st'" and "elim_inv orig st'"
    and "elim_measure st' < elim_measure st" and "es_k st \<le> es_k st'"
  using assms
proof (cases rule: elim_round_cases)
  case (Removed a st')
  from Removed(1) have "bs_element_count (es_alive st') < bs_element_count (es_alive st)"
    by (simp add: Removed(5) bs_element_count_remove_less)
  with Removed(1,2) have "elim_measure st' < elim_measure st"
    unfolding elim_measure_def by (auto split: if_splits)
  with Removed show thesis by (intro that [of st']) simp_all
next
  case (Raised m)
  then have "elim_measure (st\<lparr>es_k := m\<rparr>) < elim_measure st"
    unfolding elim_measure_def by auto
  with Raised show thesis by (intro that [of "st\<lparr>es_k := m\<rparr>"]) simp_all
qed

text \<open>
  A round that raises \<open>k\<close> raises it to a value that the living nodes justify: each of
  them has at least \<open>k - 1\<close> living neighbours. A round that removes a node leaves \<open>k\<close>
  as it is.
\<close>

lemma alive_degree_eq:
  assumes "elim_inv orig st" and "adj_bounded orig" and "a \<in> fset (es_alive st)"
  shows "degree (es_graph st) a = card (fset (orig ! as_index a) \<inter> fset (es_alive st))"
proof -
  from assms(1,3) have valid: "as_index a < length orig"
    and w: "fset (es_graph st ! as_index a) = fset (orig ! as_index a) - set (es_stack st)"
    and alive: "fset (es_alive st) = {a. as_index a < length orig} - set (es_stack st)"
    by (auto simp: elim_inv_def)
  from assms(2) valid have "fset (orig ! as_index a) \<subseteq> {b. as_index b < length orig}"
    by (auto simp: adj_bounded_def)
  then have "fset (orig ! as_index a) - set (es_stack st) =
      fset (orig ! as_index a) \<inter> fset (es_alive st)"
    unfolding alive by auto
  with w show ?thesis by (simp add: degree_def bs_element_count_card)
qed

lemma elim_round_core:
  assumes inv: "elim_inv orig st" and bounded: "adj_bounded orig"
    and small: "max_degree orig < usize_max" and ne: "es_alive st \<noteq> {||}"
    and core: "dense_core orig (es_k st)" and round: "elim_round st = Inr st'"
  shows "dense_core orig (es_k st')"
  using inv ne small
proof (cases rule: elim_round_cases)
  case (Removed a st1)
  with core round show ?thesis by simp
next
  case (Raised m)
  let ?S = "fset (es_alive st)"
  have "m \<le> card (fset (orig ! as_index a) \<inter> ?S) + 1" if "a \<in> ?S" for a
  proof -
    from that have "m \<le> degree (es_graph st) a + 1"
      unfolding Raised(2) by (intro Min_le) simp_all
    with that show ?thesis by (simp add: alive_degree_eq [OF inv bounded])
  qed
  moreover from inv have "?S \<subseteq> {a. as_index a < length orig}"
    by (auto simp: elim_inv_def)
  moreover from ne have "?S \<noteq> {}" by simp
  ultimately have "dense_core orig m" unfolding dense_core_def by blast
  with Raised(3) round show ?thesis by simp
qed

section \<open>The loop returns\<close>

lemma elim_loop_done: "es_alive st = {||} \<Longrightarrow> elim_loop st = Some (Inr st)"
  by (subst elim_loop.simps) simp

lemma elim_loop_round:
  "es_alive st \<noteq> {||} \<Longrightarrow> elim_round st = Inr st' \<Longrightarrow> elim_loop st = elim_loop st'"
  by (subst elim_loop.simps) simp

lemma elim_loop_panic:
  "es_alive st \<noteq> {||} \<Longrightarrow> elim_round st = Inl e \<Longrightarrow> elim_loop st = Some (Inl e)"
  by (subst elim_loop.simps) simp

text \<open>
  From every state that satisfies the invariant the loop ends, without a panic, in a
  state that satisfies the invariant and has no living node.
\<close>

lemma elim_loop_rule:
  assumes inv: "elim_inv orig st" and small: "max_degree orig < usize_max" and P: "P st"
    and step: "\<And>s s'. elim_inv orig s \<Longrightarrow> P s \<Longrightarrow> es_alive s \<noteq> {||} \<Longrightarrow>
      elim_round s = Inr s' \<Longrightarrow> P s'"
  shows "\<exists>st'. elim_loop st = Some (Inr st') \<and> elim_inv orig st' \<and> es_alive st' = {||} \<and> P st'"
  using inv P
proof (induction "elim_measure st" arbitrary: st rule: less_induct)
  case less
  show ?case
  proof (cases "es_alive st = {||}")
    case True
    with less.prems show ?thesis by (auto simp: elim_loop_done)
  next
    case False
    from elim_round_step [OF less.prems(1) False small] obtain st1
      where st1: "elim_round st = Inr st1" "elim_inv orig st1"
        "elim_measure st1 < elim_measure st"
      by blast
    from step [OF less.prems False st1(1)] have "P st1" .
    from less.hyps [OF st1(3,2) this] st1(1) False show ?thesis
      by (auto simp: elim_loop_round)
  qed
qed

lemma elim_loop_total:
  assumes "elim_inv orig st" and "max_degree orig < usize_max"
  shows "\<exists>st'. elim_loop st = Some (Inr st') \<and> elim_inv orig st' \<and> es_alive st' = {||} \<and>
    es_k st \<le> es_k st'"
proof (rule elim_loop_rule [OF assms, where P = "\<lambda>s. es_k st \<le> es_k s"])
  fix s s'
  assume s: "elim_inv orig s" "es_k st \<le> es_k s" "es_alive s \<noteq> {||}" "elim_round s = Inr s'"
  from elim_round_step [OF s(1,3) assms(2)] s(2,4) show "es_k st \<le> es_k s'"
    by (metis Inr_inject le_trans)
qed simp

section \<open>The final state\<close>

lemma elim_cert_split:
  "elim_cert orig w k (pre @ v # rest) \<Longrightarrow>
    fset (w ! as_index v) = fset (orig ! as_index v) - set rest \<and> degree w v < k"
  by (induction pre) simp_all

lemma elim_cert_pos: "elim_cert orig w k stack \<Longrightarrow> stack \<noteq> [] \<Longrightarrow> 0 < k"
  by (cases stack) auto

text \<open>
  When no node is alive, the stack holds every node exactly once, and each node on it
  has fewer than \<open>k\<close> neighbours outside the part of the stack below it.
\<close>

lemma elim_inv_final:
  assumes "elim_inv orig st" and "es_alive st = {||}"
  shows "set (es_stack st) = {a. as_index a < length orig}"
    and "distinct (es_stack st)"
    and "length (es_graph st) = length orig"
    and "elim_cert orig (es_graph st) (es_k st) (es_stack st)"
    and "es_k st \<le> max_degree orig + 1"
  using assms by (auto simp: elim_inv_def)

lemma elim_final_length:
  assumes "elim_inv orig st" and "es_alive st = {||}"
  shows "length (es_stack st) = length orig"
proof -
  from elim_inv_final(1,2) [OF assms] have "length (es_stack st) = card {a. as_index a < length orig}"
    by (metis distinct_card)
  also have "{a. as_index a < length orig} = NodeId ` {0..<length orig}"
    by (simp add: NodeId_as_index_image)
  also have "card \<dots> = length orig"
    by (simp add: card_image inj_on_def)
  finally show ?thesis .
qed

text \<open>
  The whole first phase, from the initial state: it returns a state whose stack is an
  elimination order of all nodes for the bound \<open>k\<close>, and \<open>k\<close> is at most the largest
  degree plus one.
\<close>

lemma elimination_returns:
  assumes "max_degree orig < usize_max"
  obtains st where "elim_loop (elim_init orig) = Some (Inr st)"
    and "set (es_stack st) = {a. as_index a < length orig}"
    and "distinct (es_stack st)"
    and "length (es_graph st) = length orig"
    and "elim_cert orig (es_graph st) (es_k st) (es_stack st)"
    and "es_k st \<le> max_degree orig + 1"
proof -
  from elim_loop_total [OF elim_inv_init assms] obtain st
    where st: "elim_loop (elim_init orig) = Some (Inr st)" "elim_inv orig st" "es_alive st = {||}"
    by blast
  from st(1) elim_inv_final [OF st(2,3)] show thesis by (rule that)
qed

text \<open>
  The bound that the first phase returns is justified by a set of nodes of the graph, and
  such a set defeats every order: walking down any stack that holds all nodes, the last
  node of the set has all its neighbours inside the set above it or is one itself.
\<close>

lemma elimination_core:
  assumes "adj_bounded orig" and "max_degree orig < usize_max"
    and "elim_loop (elim_init orig) = Some (Inr st)"
  shows "dense_core orig (es_k st)"
proof -
  have "\<exists>st'. elim_loop (elim_init orig) = Some (Inr st') \<and> elim_inv orig st' \<and>
      es_alive st' = {||} \<and> dense_core orig (es_k st')"
    using elim_inv_init assms(2)
  proof (rule elim_loop_rule)
    show "dense_core orig (es_k (elim_init orig))"
      by (simp add: dense_core_def elim_init_def)
  qed (rule elim_round_core [OF _ assms(1,2)])
  with assms(3) show ?thesis by simp
qed

lemma dense_core_order:
  assumes "dense_core orig k" and "0 < k" and "{a. as_index a < length orig} \<subseteq> set stack"
  shows "\<exists>pre v rest. stack = pre @ v # rest \<and> as_index v < length orig \<and>
    k \<le> card (fset (orig ! as_index v) - set rest) + 1"
proof -
  from assms(1,2) obtain S where S: "S \<noteq> {}" "S \<subseteq> {a. as_index a < length orig}"
    "\<forall>a \<in> S. k \<le> card (fset (orig ! as_index a) \<inter> S) + 1"
    unfolding dense_core_def by auto
  with assms(3) have "\<exists>x \<in> set stack. x \<in> S" by blast
  then obtain pre v rest where split: "stack = pre @ v # rest" "v \<in> S" "\<forall>z \<in> set rest. z \<notin> S"
    using split_list_last_prop [of stack "\<lambda>x. x \<in> S"] by blast
  then have "fset (orig ! as_index v) \<inter> S \<subseteq> fset (orig ! as_index v) - set rest" by auto
  then have "card (fset (orig ! as_index v) \<inter> S) \<le> card (fset (orig ! as_index v) - set rest)"
    by (intro card_mono) simp_all
  with S(2,3) split(1,2) show ?thesis by fastforce
qed

lemma elim_k_pos:
  assumes "elim_loop (elim_init orig) = Some (Inr st)" and "max_degree orig < usize_max"
    and "orig \<noteq> []"
  shows "0 < es_k st"
proof -
  from elimination_returns [OF assms(2)] assms(1)
  have stack: "set (es_stack st) = {a. as_index a < length orig}"
    and cert: "elim_cert orig (es_graph st) (es_k st) (es_stack st)"
    by simp_all
  from assms(3) have "NodeId 0 \<in> set (es_stack st)" unfolding stack by simp
  then have "es_stack st \<noteq> []" by auto
  with cert show ?thesis by (rule elim_cert_pos)
qed

lemma elim_k_zero_iff:
  assumes "elim_loop (elim_init orig) = Some (Inr st)" and "max_degree orig < usize_max"
  shows "es_k st = 0 \<longleftrightarrow> orig = []"
proof (cases "orig = []")
  case True
  then have "elim_loop (elim_init orig) = Some (Inr (elim_init orig))"
    by (intro elim_loop_done)
      (simp add: elim_init_def index_iter_def tv_index_iter_def bs_collect_def)
  with assms(1) True show ?thesis by (simp add: elim_init_def)
next
  case False
  with elim_k_pos [OF assms] show ?thesis by simp
qed

section \<open>Properties of the first phase\<close>

text \<open>
  C11. The elimination loop, started on any adjacency table whose degrees are below
  \<open>usize_max\<close>, returns without a panic; at the end no node is alive, the stack holds
  every node exactly once, and every node of the stack has fewer than \<open>k\<close> neighbours
  outside the part of the stack below it (the neighbours that were still alive when it
  was removed).
\<close>

theorem elimination_order:
  assumes "max_degree orig < usize_max"
  shows "\<exists>st. elim_loop (elim_init orig) = Some (Inr st) \<and> es_alive st = {||} \<and>
    distinct (es_stack st) \<and> set (es_stack st) = set (index_iter orig) \<and>
    (\<forall>pre v rest. es_stack st = pre @ v # rest \<longrightarrow>
       card (fset (orig ! as_index v) - set rest) < es_k st)"
proof -
  from elim_loop_total [OF elim_inv_init assms] obtain st
    where st: "elim_loop (elim_init orig) = Some (Inr st)" "elim_inv orig st" "es_alive st = {||}"
    by blast
  note final = elim_inv_final [OF st(2,3)]
  have "card (fset (orig ! as_index v) - set rest) < es_k st"
    if "es_stack st = pre @ v # rest" for pre v rest
  proof -
    from final(4) have "elim_cert orig (es_graph st) (es_k st) (pre @ v # rest)"
      unfolding that .
    from elim_cert_split [OF this] show ?thesis
      by (auto simp: degree_def bs_element_count_card)
  qed
  with st(1,3) final(1,2) show ?thesis by simp
qed

text \<open>
  C13. Every round of the outer loop on a state with a living node returns without a
  panic, keeps the invariant and decreases the measure \<open>2 * |alive| + (0 or 1)\<close>: the
  loop cannot run forever.
\<close>

theorem elim_round_decreases:
  assumes "elim_inv orig st" and "es_alive st \<noteq> {||}" and "max_degree orig < usize_max"
  shows "\<exists>st'. elim_round st = Inr st' \<and> elim_inv orig st' \<and>
    elim_measure st' < elim_measure st"
  using elim_round_step [OF assms] by metis

text \<open>
  C15. The scan over nodes inside the table ends early exactly with the first node of
  the list that has fewer than \<open>k\<close> neighbours, and runs to the end exactly when there
  is none, returning the least of \<open>min_k\<close> and the degrees plus one.
\<close>

theorem scan_spec:
  assumes "\<forall>a \<in> set xs. as_index a < length w"
  shows "(scan w k xs m = Inr (Found a) \<longleftrightarrow>
      (\<exists>pre post. xs = pre @ a # post \<and> degree w a < k \<and> (\<forall>b \<in> set pre. \<not> degree w b < k))) \<and>
    (scan w k xs m = Inr (NotFound m') \<longleftrightarrow>
      (\<forall>b \<in> set xs. \<not> degree w b < k) \<and> m' = Min (insert m ((\<lambda>b. degree w b + 1) ` set xs)))"
proof -
  let ?found = "List.find (\<lambda>a. degree w a < k) xs"
  have "scan w k xs m = Inr (Found a) \<longleftrightarrow> ?found = Some a"
    unfolding scan_eq [OF assms] by (simp split: option.split)
  moreover have "scan w k xs m = Inr (NotFound m') \<longleftrightarrow>
      ?found = None \<and> m' = fold (\<lambda>a m. min m (degree w a + 1)) xs m"
    unfolding scan_eq [OF assms] by (auto split: option.split)
  ultimately show ?thesis
    unfolding find_Some_split find_None_iff fold_min_eq_Min by blast
qed

section \<open>The first phase on the graph of the crate's test\<close>

lemma graph_ok_adj_bounded: "graph_ok g \<Longrightarrow> adj_bounded (nodes g)"
  unfolding graph_ok_def adj_bounded_def
proof (intro allI impI ballI)
  fix i b
  assume ok: "\<forall>a b. b \<in> neighbours g a \<longrightarrow> valid_node g b \<and> a \<in> neighbours g b"
    and "i < length (nodes g)" "b \<in> fset (nodes g ! i)"
  then have "b \<in> neighbours g (NodeId i)" by (simp add: neighbours_def valid_node_def)
  with ok show "as_index b < length (nodes g)" by (auto simp: valid_node_def)
qed

lemma max_degree_simple_graph: "max_degree (nodes simple_graph) = 3"
  by code_simp

lemma simple_graph_degree_small: "max_degree (nodes simple_graph) < usize_max"
  by code_simp

lemma simple_graph_alive: "es_alive (elim_init (nodes simple_graph)) \<noteq> {||}"
  by code_simp

lemma index_iter_simple_graph:
  "index_iter (nodes simple_graph) = [NodeId 0, NodeId 1, NodeId 2, NodeId 3]"
  by code_simp

lemma degree_simple_graph_0: "degree (nodes simple_graph) (NodeId 0) = 2"
  by code_simp

lemma elim_loop_simple_graph:
  "elim_loop (elim_init (nodes simple_graph)) = Some (Inr
     \<lparr>es_k = 3, es_stack = [NodeId 3, NodeId 2, NodeId 1, NodeId 0],
      es_graph = [{|NodeId 2, NodeId 3|}, {|NodeId 2, NodeId 3|}, {|NodeId 3|}, {||}],
      es_alive = {||}\<rparr>)"
  by code_simp

theorem elimination_order_witness:
  "max_degree (nodes simple_graph) < usize_max \<and>
   (\<exists>st. elim_loop (elim_init (nodes simple_graph)) = Some (Inr st) \<and> es_alive st = {||} \<and>
     distinct (es_stack st) \<and> set (es_stack st) = set (index_iter (nodes simple_graph)) \<and>
     (\<forall>pre v rest. es_stack st = pre @ v # rest \<longrightarrow>
        card (fset (nodes simple_graph ! as_index v) - set rest) < es_k st))"
  using simple_graph_degree_small elimination_order [OF simple_graph_degree_small]
  by (rule conjI)

theorem elim_round_decreases_witness:
  "elim_inv (nodes simple_graph) (elim_init (nodes simple_graph)) \<and>
   es_alive (elim_init (nodes simple_graph)) \<noteq> {||} \<and>
   max_degree (nodes simple_graph) < usize_max \<and>
   (\<exists>st'. elim_round (elim_init (nodes simple_graph)) = Inr st' \<and>
      elim_inv (nodes simple_graph) st' \<and>
      elim_measure st' < elim_measure (elim_init (nodes simple_graph)))"
  using elim_inv_init [of "nodes simple_graph"] simple_graph_alive simple_graph_degree_small
    elim_round_decreases [OF elim_inv_init simple_graph_alive simple_graph_degree_small]
  by blast

theorem scan_spec_witness:
  "scan (nodes simple_graph) 3 (index_iter (nodes simple_graph)) usize_max = Inr (Found (NodeId 0))"
proof -
  have valid: "\<forall>a \<in> set (index_iter (nodes simple_graph)). as_index a < length (nodes simple_graph)"
    by simp
  have "\<exists>pre post. index_iter (nodes simple_graph) = pre @ NodeId 0 # post \<and>
      degree (nodes simple_graph) (NodeId 0) < 3 \<and>
      (\<forall>b \<in> set pre. \<not> degree (nodes simple_graph) b < 3)"
    by (intro exI [of _ "[]"] exI [of _ "[NodeId 1, NodeId 2, NodeId 3]"])
      (simp add: index_iter_simple_graph degree_simple_graph_0)
  with scan_spec [OF valid, of 3 usize_max "NodeId 0" 0] show ?thesis by simp
qed

theorem elim_round_Found_witness:
  "elim_round (elim_init (nodes simple_graph)\<lparr>es_k := 3\<rparr>) =
     eliminate (NodeId 0) (elim_init (nodes simple_graph)\<lparr>es_k := 3\<rparr>)"
proof (rule elim_round_Found)
  show "NodeId 0 \<in> fset (es_alive (elim_init (nodes simple_graph)\<lparr>es_k := 3\<rparr>))"
    by (simp add: elim_init_def simple_graph_def)
qed (simp_all add: elim_init_def degree_simple_graph_0 less_NodeId_def)

end
