(* ===== verification/Greedy.thy ===== *)
theory Greedy
  imports Elimination
begin

text \<open>
  The second phase of \<open>Graph::minimal_coloring\<close> (\<open>src/lib.rs\<close>, lines 107 to 116): the
  nodes are popped from the elimination stack, and each gets the least colour below
  \<open>k\<close> that none of the nodes in its working adjacency set carries.
  \<^item> \<open>forbid\<close> is the body of \<open>for other in graph[node].iter()\<close>: it reads
    \<open>colors[other]\<close> (which panics past the end) and removes it from the allowed
    colours.
  \<^item> \<open>first_free\<close> is \<open>allowed_colors.iter().next().unwrap()\<close>.
  \<^item> \<open>color_node\<close> is the body of the \<open>while let\<close> loop and \<open>assign_colors\<close> the loop:
    it ends when the stack is empty, so it is a \<open>for_each\<close> over the stack from its top.

  The adjacency sets read here are those of the working graph that the first phase
  leaves, not those of the graph itself: the set of a node holds the neighbours that
  were alive when the node was removed.

  The lemmas: the loop over the neighbours computes a set difference; \<open>first_free\<close>
  returns the minimum and panics exactly on the empty set; \<open>color_node\<close> returns when
  the node has fewer than \<open>k\<close> entries in its adjacency set; \<open>assign_colors\<close> returns
  on every stack that the first phase can leave (\<open>assign_colors_returns\<close>) with a
  colouring that is \<open>greedy_ok\<close>; such a colouring gives distinct colours to the
  two ends of every edge of the original graph (\<open>greedy_proper\<close>); and the colours
  are first-fit: every colour below the colour of a node is the colour of a member of
  its adjacency set (\<open>assign_colors_least\<close>).
\<close>

section \<open>Operations\<close>

definition forbid :: "nat list \<Rightarrow> NodeId \<Rightarrow> nat bitset \<Rightarrow> nat bitset result" where
  "forbid colors other allowed =
     bindr (tv_index colors (as_index other)) (\<lambda>c. Inr (bs_remove c allowed))"

definition first_free :: "nat bitset \<Rightarrow> nat result" where
  "first_free allowed = (case bs_iter allowed of [] \<Rightarrow> Inl UnwrapNone | c # _ \<Rightarrow> Inr c)"

definition color_node :: "nat \<Rightarrow> NodeId bitset list \<Rightarrow> NodeId \<Rightarrow> nat list \<Rightarrow> nat list result" where
  "color_node k graph node colors =
     bindr (tv_index graph (as_index node)) (\<lambda>adj.
       bindr (for_each (bs_iter adj) (forbid colors) (bs_collect [0..<k])) (\<lambda>allowed.
         bindr (first_free allowed) (\<lambda>c.
           tv_modify (as_index node) (\<lambda>_. c) colors)))"

definition assign_colors ::
  "nat \<Rightarrow> NodeId bitset list \<Rightarrow> NodeId list \<Rightarrow> nat list \<Rightarrow> nat list result" where
  "assign_colors k graph stack colors = for_each stack (color_node k graph) colors"

section \<open>What a greedy colouring satisfies\<close>

fun greedy_ok :: "nat \<Rightarrow> NodeId bitset list \<Rightarrow> nat list \<Rightarrow> NodeId list \<Rightarrow> bool" where
  "greedy_ok k w colors [] \<longleftrightarrow> True"
| "greedy_ok k w colors (v # rest) \<longleftrightarrow>
     colors ! as_index v < k \<and>
     (\<forall>u \<in> fset (w ! as_index v). u \<notin> set (v # rest) \<longrightarrow>
        colors ! as_index u \<noteq> colors ! as_index v) \<and>
     greedy_ok k w colors rest"

section \<open>The allowed colours\<close>

lemma fold_bs_remove:
  "fset (fold (\<lambda>x s. bs_remove (f x) s) xs A) = fset A - f ` set xs"
  by (induction xs arbitrary: A) auto

lemma forbid_loop:
  assumes "\<forall>u \<in> fset adj. as_index u < length colors"
  shows "\<exists>allowed. for_each (bs_iter adj) (forbid colors) A = Inr allowed \<and>
    fset allowed = fset A - (\<lambda>u. colors ! as_index u) ` fset adj"
proof -
  have "for_each (bs_iter adj) (forbid colors) A =
      Inr (fold (\<lambda>u s. bs_remove (colors ! as_index u) s) (bs_iter adj) A)"
    using assms by (intro for_each_fold) (simp add: forbid_def tv_index_Inr)
  then show ?thesis by (simp add: fold_bs_remove)
qed

lemma forbid_loop_panic:
  assumes "u \<in> fset adj" and "\<not> as_index u < length colors"
  shows "for_each (bs_iter adj) (forbid colors) A = Inl IndexOutOfBounds"
proof -
  from assms obtain ps y qs where split: "bs_iter adj = ps @ y # qs"
    "\<not> as_index y < length colors" "\<forall>p \<in> set ps. as_index p < length colors"
    using split_list_first_prop [of "bs_iter adj" "\<lambda>u. \<not> as_index u < length colors"]
    by (metis set_bs_iter)
  have "for_each ps (forbid colors) A =
      Inr (fold (\<lambda>u s. bs_remove (colors ! as_index u) s) ps A)"
    using split(3) by (intro for_each_fold) (simp add: forbid_def tv_index_Inr)
  with split(1,2) show ?thesis
    by (simp add: for_each_append forbid_def tv_index_Inl)
qed

lemma bs_iter_Cons_Min: "bs_iter s = c # cs \<Longrightarrow> c = Min (fset s)"
proof -
  assume eq: "bs_iter s = c # cs"
  then have "sorted (c # cs)" "set (c # cs) = fset s"
    by (metis sorted_bs_iter, metis set_bs_iter)
  then show ?thesis by (intro Min_eqI [symmetric]) auto
qed

lemma first_free_eq:
  "first_free allowed = (if allowed = {||} then Inl UnwrapNone else Inr (Min (fset allowed)))"
  by (cases "bs_iter allowed") (auto simp: first_free_def dest: bs_iter_Cons_Min)

text \<open>Fewer than \<open>k\<close> forbidden colours leave one of the \<open>k\<close> colours free.\<close>

lemma free_colour_exists:
  assumes "finite S" and "card S < k"
  shows "{0..<k} - f ` S \<noteq> {}"
proof
  assume "{0..<k} - f ` S = {}"
  then have "{0..<k} \<subseteq> f ` S" by blast
  then have "card {0..<k} \<le> card (f ` S)"
    using assms(1) by (intro card_mono) simp_all
  also have "\<dots> \<le> card S" using assms(1) by (rule card_image_le)
  finally show False using assms(2) by simp
qed

section \<open>Colouring one node\<close>

text \<open>
  A node inside both vectors, whose adjacency set has fewer than \<open>k\<close> elements, all of
  them inside the vector of colours, gets the least colour below \<open>k\<close> that none of them
  carries; no other entry of \<open>colors\<close> changes.
\<close>

lemma color_node_eq:
  assumes v: "as_index v < length w" "as_index v < length colors"
    and adj: "\<forall>u \<in> fset (w ! as_index v). as_index u < length colors"
    and deg: "degree w v < k"
  defines "c \<equiv> Min ({0..<k} - (\<lambda>u. colors ! as_index u) ` fset (w ! as_index v))"
  shows "color_node k w v colors = Inr (colors[as_index v := c])"
    and "c < k"
    and "\<forall>u \<in> fset (w ! as_index v). colors ! as_index u \<noteq> c"
proof -
  let ?F = "(\<lambda>u. colors ! as_index u) ` fset (w ! as_index v)"
  from forbid_loop [OF adj, of "bs_collect [0..<k]"] obtain allowed
    where allowed: "for_each (bs_iter (w ! as_index v)) (forbid colors) (bs_collect [0..<k]) =
        Inr allowed" "fset allowed = {0..<k} - ?F"
    by auto
  from deg have ne: "{0..<k} - ?F \<noteq> {}"
    by (intro free_colour_exists) (simp_all add: degree_def bs_element_count_card)
  with allowed(2) have "allowed \<noteq> {||}" by auto
  with allowed v show "color_node k w v colors = Inr (colors[as_index v := c])"
    by (simp add: color_node_def tv_index_Inr first_free_eq tv_modify_Inr c_def)
  have "c \<in> {0..<k} - ?F" unfolding c_def using ne by (intro Min_in) simp_all
  then show "c < k" and "\<forall>u \<in> fset (w ! as_index v). colors ! as_index u \<noteq> c"
    by auto
qed

section \<open>Colouring along the stack\<close>

text \<open>
  On a stack of distinct nodes inside the vectors, each with fewer than \<open>k\<close> elements
  in its adjacency set and all of those inside the vector of colours, the loop returns;
  the colours of the nodes outside the stack are unchanged, and the result is
  \<open>greedy_ok\<close>.
\<close>

lemma assign_colors_returns:
  assumes "distinct stack" and "length colors = length w"
    and "\<forall>v \<in> set stack. as_index v < length w \<and> degree w v < k \<and>
      (\<forall>u \<in> fset (w ! as_index v). as_index u < length w)"
  shows "\<exists>colors'. assign_colors k w stack colors = Inr colors' \<and>
    length colors' = length w \<and>
    (\<forall>a. a \<notin> set stack \<longrightarrow> colors' ! as_index a = colors ! as_index a) \<and>
    greedy_ok k w colors' stack"
  using assms unfolding assign_colors_def
proof (induction stack arbitrary: colors)
  case Nil
  then show ?case by simp
next
  case (Cons v rest)
  let ?c = "Min ({0..<k} - (\<lambda>u. colors ! as_index u) ` fset (w ! as_index v))"
  let ?colors1 = "colors[as_index v := ?c]"
  from Cons.prems have v: "as_index v < length w" "as_index v < length colors"
    and adj: "\<forall>u \<in> fset (w ! as_index v). as_index u < length colors"
    and deg: "degree w v < k" and fresh: "v \<notin> set rest"
    by simp_all
  note node = color_node_eq [OF v adj deg]
  from Cons.prems have "\<exists>colors'. for_each rest (color_node k w) ?colors1 = Inr colors' \<and>
      length colors' = length w \<and>
      (\<forall>a. a \<notin> set rest \<longrightarrow> colors' ! as_index a = ?colors1 ! as_index a) \<and>
      greedy_ok k w colors' rest"
    by (intro Cons.IH) simp_all
  then obtain colors' where colors': "for_each rest (color_node k w) ?colors1 = Inr colors'"
    "length colors' = length w"
    "\<And>a. a \<notin> set rest \<Longrightarrow> colors' ! as_index a = ?colors1 ! as_index a"
    "greedy_ok k w colors' rest"
    by blast
  from colors'(3) [OF fresh] v have top: "colors' ! as_index v = ?c" by simp
  have other: "colors' ! as_index u = colors ! as_index u" if "u \<notin> set (v # rest)" for u
    using that colors'(3) [of u] by auto
  from node(2,3) top other colors'(4) have "greedy_ok k w colors' (v # rest)"
    by simp
  with node(1) colors' other show ?case by auto
qed

text \<open>
  The colours are first-fit. When the nodes of the stack start with a value that is no
  colour below \<open>k\<close>, every colour below the colour of a node of the stack is, in the
  colours that the loop returns, the colour of a member of its adjacency set: the loop
  gives no node a colour that could be lowered.
\<close>

lemma below_least_free:
  fixes k :: nat
  assumes "{0..<k} - F \<noteq> {}" and "c' < Min ({0..<k} - F)"
  shows "c' \<in> F"
proof (rule ccontr)
  assume "c' \<notin> F"
  have "finite ({0..<k} - F)" by simp
  from Min_in [OF this assms(1)] have "Min ({0..<k} - F) \<in> {0..<k} - F" .
  with assms(2) \<open>c' \<notin> F\<close> have "c' \<in> {0..<k} - F" by auto
  then have "Min ({0..<k} - F) \<le> c'" by (intro Min_le) simp_all
  with assms(2) show False by simp
qed

lemma assign_colors_least:
  assumes "distinct stack" and "length colors = length w"
    and "\<forall>v \<in> set stack. as_index v < length w \<and> degree w v < k \<and>
      (\<forall>u \<in> fset (w ! as_index v). as_index u < length w)"
    and "\<forall>v \<in> set stack. k \<le> colors ! as_index v"
    and "assign_colors k w stack colors = Inr colors'"
    and "v \<in> set stack" and "c' < colors' ! as_index v"
  shows "\<exists>u \<in> fset (w ! as_index v). colors' ! as_index u = c'"
  using assms unfolding assign_colors_def
proof (induction stack arbitrary: colors)
  case Nil
  then show ?case by simp
next
  case (Cons x rest)
  let ?F = "(\<lambda>u. colors ! as_index u) ` fset (w ! as_index x)"
  let ?c = "Min ({0..<k} - ?F)"
  let ?colors1 = "colors[as_index x := ?c]"
  from Cons.prems have x: "as_index x < length w" "as_index x < length colors"
    and adj: "\<forall>u \<in> fset (w ! as_index x). as_index u < length colors"
    and deg: "degree w x < k" and fresh: "x \<notin> set rest"
    by simp_all
  note node = color_node_eq [OF x adj deg]
  from Cons.prems(5) node(1) have ret: "for_each rest (color_node k w) ?colors1 = Inr colors'"
    by simp
  from Cons.prems have "\<exists>cs. assign_colors k w rest ?colors1 = Inr cs \<and> length cs = length w \<and>
      (\<forall>a. a \<notin> set rest \<longrightarrow> cs ! as_index a = ?colors1 ! as_index a) \<and> greedy_ok k w cs rest"
    by (intro assign_colors_returns) simp_all
  with ret have keep: "colors' ! as_index a = ?colors1 ! as_index a" if "a \<notin> set rest" for a
    using that by (auto simp: assign_colors_def)
  show ?case
  proof (cases "v = x")
    case True
    from keep [OF fresh] x True have top: "colors' ! as_index v = ?c" by simp
    from deg have "{0..<k} - ?F \<noteq> {}"
      by (intro free_colour_exists) (simp_all add: degree_def bs_element_count_card)
    from below_least_free [OF this] Cons.prems(7) top have "c' \<in> ?F" by simp
    then obtain u where u: "u \<in> fset (w ! as_index x)" "colors ! as_index u = c'" by auto
    from Cons.prems(7) top node(2) u(2) have "colors ! as_index u < k" by simp
    with Cons.prems(4) have "u \<notin> set (x # rest)" by (auto simp: not_le [symmetric])
    with keep [of u] u(2) have "colors' ! as_index u = c'" by (auto simp: nth_list_update)
    with u(1) True show ?thesis by auto
  next
    case False
    with Cons.prems(6) have "v \<in> set rest" by simp
    moreover from Cons.prems(4) fresh x(2) have "\<forall>u \<in> set rest. k \<le> ?colors1 ! as_index u"
      by (auto simp: nth_list_update)
    ultimately show ?thesis using Cons.prems ret by (intro Cons.IH) simp_all
  qed
qed

section \<open>A greedy colouring along an elimination order is proper\<close>

lemma greedy_ok_split:
  "greedy_ok k w colors (pre @ v # rest) \<Longrightarrow>
    colors ! as_index v < k \<and>
    (\<forall>u \<in> fset (w ! as_index v). u \<notin> set (v # rest) \<longrightarrow>
       colors ! as_index u \<noteq> colors ! as_index v)"
  by (induction pre) simp_all

lemma greedy_ok_range: "greedy_ok k w colors stack \<Longrightarrow> v \<in> set stack \<Longrightarrow> colors ! as_index v < k"
  by (induction stack) auto

text \<open>
  Two distinct nodes of the stack that are adjacent in the original graph get distinct
  colours, when adjacency is symmetric between them: the one nearer the top of the
  stack is in the working adjacency set of the other.
\<close>

lemma greedy_proper:
  assumes cert: "elim_cert orig w k stack" and ok: "greedy_ok k w colors stack"
    and dist: "distinct stack"
    and a: "a \<in> set stack" and b: "b \<in> set stack" and ne: "a \<noteq> b"
    and ab: "b \<in> fset (orig ! as_index a)" and ba: "a \<in> fset (orig ! as_index b)"
  shows "colors ! as_index a \<noteq> colors ! as_index b"
proof -
  have later: "colors ! as_index x \<noteq> colors ! as_index y"
    if "stack = pre @ x # rest" "y \<notin> set (x # rest)" "y \<in> fset (orig ! as_index x)"
    for pre x rest y
  proof -
    from cert that(1) have "fset (w ! as_index x) = fset (orig ! as_index x) - set rest"
      by (simp add: elim_cert_split)
    with that have "y \<in> fset (w ! as_index x)" by simp
    with ok that(1,2) show ?thesis
      by (metis greedy_ok_split)
  qed
  from a obtain pre rest where split: "stack = pre @ a # rest"
    by (meson split_list)
  show ?thesis
  proof (cases "b \<in> set rest")
    case False
    with ne have "b \<notin> set (a # rest)" by simp
    from later [OF split this ab] show ?thesis .
  next
    case True
    then obtain mid rest' where rest: "rest = mid @ b # rest'"
      by (meson split_list)
    with split have split': "stack = (pre @ a # mid) @ b # rest'" by simp
    from dist split' have "a \<notin> set (b # rest')" by auto
    from later [OF split' this ba] show ?thesis by simp
  qed
qed

section \<open>Reading the working graph or the original graph\<close>

text \<open>
  The loop reads the adjacency sets of the working graph. Reading those of the original
  graph gives the same colours: the neighbours that the working graph has lost are the
  nodes further down the stack, which still carry a value that is no colour below \<open>k\<close>.
\<close>

lemma color_node_cong_adj:
  assumes v: "as_index v < length w" "as_index v < length orig"
    and adj: "\<forall>u \<in> fset (orig ! as_index v). as_index u < length colors"
    and sub: "fset (w ! as_index v) \<subseteq> fset (orig ! as_index v)"
    and rest: "\<forall>u \<in> fset (orig ! as_index v) - fset (w ! as_index v). k \<le> colors ! as_index u"
  shows "color_node k w v colors = color_node k orig v colors"
proof -
  let ?col = "\<lambda>u. colors ! as_index u"
  from adj sub have adj': "\<forall>u \<in> fset (w ! as_index v). as_index u < length colors" by auto
  from forbid_loop [OF adj', of "bs_collect [0..<k]"] obtain allowed
    where allowed: "for_each (bs_iter (w ! as_index v)) (forbid colors) (bs_collect [0..<k]) =
        Inr allowed" "fset allowed = {0..<k} - ?col ` fset (w ! as_index v)"
    by auto
  from forbid_loop [OF adj, of "bs_collect [0..<k]"] obtain allowed'
    where allowed': "for_each (bs_iter (orig ! as_index v)) (forbid colors) (bs_collect [0..<k]) =
        Inr allowed'" "fset allowed' = {0..<k} - ?col ` fset (orig ! as_index v)"
    by auto
  have "x \<in> ?col ` fset (w ! as_index v)"
    if "x < k" "x \<in> ?col ` fset (orig ! as_index v)" for x
  proof -
    from that(2) obtain u where u: "u \<in> fset (orig ! as_index v)" "x = ?col u" by auto
    with that(1) rest have "u \<in> fset (w ! as_index v)" by force
    with u(2) show ?thesis by simp
  qed
  with sub have "{0..<k} - ?col ` fset (w ! as_index v) =
      {0..<k} - ?col ` fset (orig ! as_index v)"
    by (intro equalityI subsetI) auto
  with allowed(2) allowed'(2) have "allowed = allowed'" by (intro bitset_eqI) simp
  with allowed(1) allowed'(1) v show ?thesis by (simp add: color_node_def tv_index_Inr)
qed

lemma assign_colors_orig:
  assumes "elim_cert orig w k stack" and "distinct stack" and "length w = length orig"
    and "length colors = length orig" and "adj_bounded orig"
    and "\<forall>v \<in> set stack. as_index v < length orig \<and> k \<le> colors ! as_index v"
  shows "assign_colors k w stack colors = assign_colors k orig stack colors"
  using assms unfolding assign_colors_def
proof (induction stack arbitrary: colors)
  case Nil
  show ?case by simp
next
  case (Cons v rest)
  from Cons.prems have v: "as_index v < length w" "as_index v < length orig"
    "as_index v < length colors" and fresh: "v \<notin> set rest"
    and w: "fset (w ! as_index v) = fset (orig ! as_index v) - set rest"
    and deg: "degree w v < k"
    by simp_all
  from Cons.prems(5) v(2) Cons.prems(4)
  have adj: "\<forall>u \<in> fset (orig ! as_index v). as_index u < length colors"
    by (auto simp: adj_bounded_def)
  with w have adj': "\<forall>u \<in> fset (w ! as_index v). as_index u < length colors" by auto
  from w Cons.prems(6) have "\<forall>u \<in> fset (orig ! as_index v) - fset (w ! as_index v).
      k \<le> colors ! as_index u"
    by auto
  with w have same: "color_node k w v colors = color_node k orig v colors"
    by (intro color_node_cong_adj v adj) simp_all
  let ?c = "Min ({0..<k} - (\<lambda>u. colors ! as_index u) ` fset (w ! as_index v))"
  from color_node_eq(1) [OF v(1,3) adj' deg]
  have node: "color_node k w v colors = Inr (colors[as_index v := ?c])" .
  from Cons.prems fresh have "for_each rest (color_node k w) (colors[as_index v := ?c]) =
      for_each rest (color_node k orig) (colors[as_index v := ?c])"
    by (intro Cons.IH) (auto simp: nth_list_update)
  with node same show ?case by simp
qed

section \<open>Properties of the second phase\<close>

text \<open>
  C17. One step of the colouring loop, on a node with fewer than \<open>k\<close> entries in its
  adjacency set: the node gets a colour below \<open>k\<close> that none of these neighbours
  carries, every smaller colour is carried by one of them, and no other entry of the
  colour table changes.
\<close>

theorem color_node_least:
  assumes "as_index v < length w" and "as_index v < length colors"
    and "\<forall>u \<in> fset (w ! as_index v). as_index u < length colors"
    and "degree w v < k"
  shows "\<exists>c < k. color_node k w v colors = Inr (colors[as_index v := c]) \<and>
    (\<forall>u \<in> fset (w ! as_index v). colors ! as_index u \<noteq> c) \<and>
    (\<forall>c' < c. \<exists>u \<in> fset (w ! as_index v). colors ! as_index u = c')"
proof -
  let ?free = "{0..<k} - (\<lambda>u. colors ! as_index u) ` fset (w ! as_index v)"
  note node = color_node_eq [OF assms]
  have "\<exists>u \<in> fset (w ! as_index v). colors ! as_index u = c'" if "c' < Min ?free" for c'
  proof (rule ccontr)
    assume "\<not> ?thesis"
    with that node(2) have "c' \<in> ?free" by auto
    then have "Min ?free \<le> c'" by (intro Min_le) simp_all
    with that show False by simp
  qed
  with node show ?thesis by blast
qed

text \<open>
  C18. The \<open>unwrap\<close> of the colouring loop panics when the neighbours of the node carry
  all the colours below \<open>k\<close>.
\<close>

theorem color_node_no_free:
  assumes "as_index v < length w"
    and "\<forall>u \<in> fset (w ! as_index v). as_index u < length colors"
    and "{0..<k} \<subseteq> (\<lambda>u. colors ! as_index u) ` fset (w ! as_index v)"
  shows "color_node k w v colors = Inl UnwrapNone"
proof -
  from forbid_loop [OF assms(2), of "bs_collect [0..<k]"] obtain allowed
    where allowed: "for_each (bs_iter (w ! as_index v)) (forbid colors) (bs_collect [0..<k]) =
        Inr allowed" "fset allowed = {0..<k} - (\<lambda>u. colors ! as_index u) ` fset (w ! as_index v)"
    by auto
  from allowed(2) assms(3) have "allowed = {||}" by auto
  with allowed(1) assms(1) show ?thesis
    by (simp add: color_node_def tv_index_Inr first_free_eq)
qed

theorem color_node_least_witness:
  "\<exists>c < 3. color_node 3 [{|NodeId 2, NodeId 3|}, {|NodeId 2, NodeId 3|}, {|NodeId 3|}, {||}]
       (NodeId 2) [usize_max, usize_max, usize_max, 0] =
     Inr ([usize_max, usize_max, usize_max, 0][as_index (NodeId 2) := c]) \<and>
    (\<forall>u \<in> fset ([{|NodeId 2, NodeId 3|}, {|NodeId 2, NodeId 3|}, {|NodeId 3|}, {||}] !
        as_index (NodeId 2)).
       [usize_max, usize_max, usize_max, 0] ! as_index u \<noteq> c) \<and>
    (\<forall>c' < c. \<exists>u \<in> fset ([{|NodeId 2, NodeId 3|}, {|NodeId 2, NodeId 3|}, {|NodeId 3|}, {||}] !
        as_index (NodeId 2)).
       [usize_max, usize_max, usize_max, 0] ! as_index u = c')"
  by (rule color_node_least) (simp_all add: degree_def bs_element_count_card)

theorem color_node_no_free_witness:
  "color_node 1 [{|NodeId 1|}, {|NodeId 0|}] (NodeId 0) [usize_max, 0] = Inl UnwrapNone"
  by (rule color_node_no_free) simp_all

end
