(* ===== verification/Coloring.thy ===== *)
theory Coloring
  imports Greedy
begin

text \<open>
  \<open>Graph::minimal_coloring\<close> (\<open>src/lib.rs\<close>, lines 75 to 119) and its result, the
  structure \<open>Coloring\<close> (lines 122 to 128; its fields \<open>k\<close> and \<open>nodes\<close> are
  \<open>col_k\<close> and \<open>col_nodes\<close> here).

  \<open>minimal_coloring\<close> composes the parts in the order of the source: it runs
  \<open>check_invariants\<close>, whose panic ends the call; it starts the elimination loop on a
  copy of the adjacency sets with every node alive and \<open>k = 0\<close>; and it runs the greedy
  loop on the stack, the working graph and the \<open>k\<close> that the elimination leaves, with
  every colour set to \<open>usize_max\<close> at first. The result type is
  \<open>Coloring result option\<close>: \<open>None\<close> for a call that does not end, \<open>Some (Inl p)\<close>
  for a panic, \<open>Some (Inr c)\<close> for a returned colouring.

  The theorems are stated for graphs whose vector of nodes is shorter than
  \<open>usize_max\<close>, which holds for every vector a Rust program can allocate. Under that
  bound the call returns a colouring on every graph that passes \<open>check_invariants\<close>
  (\<open>minimal_coloring_returns\<close>), the colouring gives distinct colours to adjacent
  distinct nodes (\<open>minimal_coloring_proper\<close>), every colour is below \<open>k\<close>
  (\<open>minimal_coloring_range\<close>), and \<open>k\<close> is at most the largest degree plus one
  (\<open>minimal_coloring_bound\<close>). The colouring is first-fit: a node has a neighbour of
  every colour below its own, so its colour is at most the number of its neighbours
  (\<open>minimal_coloring_first_fit\<close>). The returned \<open>k\<close> lies between two numbers of the
  graph: it is at least the size of every clique (\<open>minimal_coloring_clique\<close>) and at
  most one more than the degeneracy (\<open>minimal_coloring_degenerate\<close>), and no
  elimination order does with a smaller bound (\<open>minimal_coloring_k_optimal\<close>).
  \<open>minimal_coloring_orig\<close> is the operation as the specification describes its
  second phase; it returns the same.
\<close>

section \<open>The result and the operation\<close>

record Coloring =
  col_k :: nat
  col_nodes :: "nat list"

definition minimal_coloring :: "Graph \<Rightarrow> Coloring result option" where
  "minimal_coloring g =
     (case check_invariants g of
        Inl e \<Rightarrow> Some (Inl e)
      | Inr _ \<Rightarrow>
         (case elim_loop (elim_init (nodes g)) of
            None \<Rightarrow> None
          | Some (Inl e) \<Rightarrow> Some (Inl e)
          | Some (Inr st) \<Rightarrow>
              Some (bindr (assign_colors (es_k st) (es_graph st) (es_stack st)
                             (replicate (length (es_graph st)) usize_max))
                      (\<lambda>colors. Inr \<lparr>col_k = es_k st, col_nodes = colors\<rparr>))))"

text \<open>
  The operation as the specification words it: the greedy loop reads the adjacency sets
  of the graph itself instead of those of the working graph.
\<close>

definition minimal_coloring_orig :: "Graph \<Rightarrow> Coloring result option" where
  "minimal_coloring_orig g =
     (case check_invariants g of
        Inl e \<Rightarrow> Some (Inl e)
      | Inr _ \<Rightarrow>
         (case elim_loop (elim_init (nodes g)) of
            None \<Rightarrow> None
          | Some (Inl e) \<Rightarrow> Some (Inl e)
          | Some (Inr st) \<Rightarrow>
              Some (bindr (assign_colors (es_k st) (nodes g) (es_stack st)
                             (replicate (length (nodes g)) usize_max))
                      (\<lambda>colors. Inr \<lparr>col_k = es_k st, col_nodes = colors\<rparr>))))"

text \<open>
  \<open>coloring_run g st colors\<close> collects what is known of a call on \<open>g\<close> that
  returns: \<open>st\<close> is the state that the elimination loop leaves and \<open>colors\<close> the
  vector that the greedy loop leaves.
\<close>

definition coloring_run :: "Graph \<Rightarrow> elim_state \<Rightarrow> nat list \<Rightarrow> bool" where
  "coloring_run g st colors \<longleftrightarrow>
     elim_loop (elim_init (nodes g)) = Some (Inr st) \<and>
     assign_colors (es_k st) (es_graph st) (es_stack st)
       (replicate (length (nodes g)) usize_max) = Inr colors \<and>
     minimal_coloring g = Some (Inr \<lparr>col_k = es_k st, col_nodes = colors\<rparr>) \<and>
     set (es_stack st) = {a. valid_node g a} \<and> distinct (es_stack st) \<and>
     elim_cert (nodes g) (es_graph st) (es_k st) (es_stack st) \<and>
     greedy_ok (es_k st) (es_graph st) colors (es_stack st) \<and>
     length colors = length (nodes g) \<and> length (es_graph st) = length (nodes g) \<and>
     es_k st \<le> max_degree (nodes g) + 1 \<and> max_degree (nodes g) < usize_max \<and>
     adj_bounded (nodes g)"

section \<open>Graphs that pass the check\<close>

lemma graph_ok_sym:
  assumes "graph_ok g" and "valid_node g a" and "b \<in> fset (nodes g ! as_index a)"
  shows "valid_node g b" and "a \<in> fset (nodes g ! as_index b)"
proof -
  from assms(2,3) have "b \<in> neighbours g a" by (simp add: neighbours_valid)
  with assms(1) have "valid_node g b \<and> a \<in> neighbours g b" by (simp add: graph_ok_def)
  then show "valid_node g b" and "a \<in> fset (nodes g ! as_index b)"
    by (auto simp: neighbours_def)
qed

lemma elim_cert_member:
  assumes "elim_cert orig w k stack" and "v \<in> set stack"
  shows "fset (w ! as_index v) \<subseteq> fset (orig ! as_index v)" and "degree w v < k"
proof -
  from assms(2) obtain pre rest where "stack = pre @ v # rest" by (meson split_list)
  with assms(1) have "fset (w ! as_index v) = fset (orig ! as_index v) - set rest \<and> degree w v < k"
    by (simp add: elim_cert_split)
  then show "fset (w ! as_index v) \<subseteq> fset (orig ! as_index v)" and "degree w v < k"
    by auto
qed

section \<open>The run of \<open>minimal_coloring\<close> on a graph that passes the check\<close>

lemma minimal_coloring_run:
  assumes ok: "graph_ok g" and small: "length (nodes g) < usize_max"
  shows "\<exists>st colors. coloring_run g st colors"
proof -
  let ?orig = "nodes g"
  from ok have bounded: "adj_bounded ?orig" by (rule graph_ok_adj_bounded)
  with small have deg_small: "max_degree ?orig < usize_max"
    using adj_bounded_max_degree_le [of ?orig] by simp
  then obtain st where st: "elim_loop (elim_init ?orig) = Some (Inr st)"
    "set (es_stack st) = {a. as_index a < length ?orig}" "distinct (es_stack st)"
    "length (es_graph st) = length ?orig"
    "elim_cert ?orig (es_graph st) (es_k st) (es_stack st)"
    "es_k st \<le> max_degree ?orig + 1"
    by (rule elimination_returns)
  have "\<forall>v \<in> set (es_stack st). as_index v < length (es_graph st) \<and>
      degree (es_graph st) v < es_k st \<and>
      (\<forall>u \<in> fset (es_graph st ! as_index v). as_index u < length (es_graph st))"
    using st(2,4) elim_cert_member [OF st(5)] bounded
    by (fastforce simp: adj_bounded_def)
  with st(3,4) obtain colors
    where colors: "assign_colors (es_k st) (es_graph st) (es_stack st)
        (replicate (length ?orig) usize_max) = Inr colors"
      "length colors = length (es_graph st)"
      "greedy_ok (es_k st) (es_graph st) colors (es_stack st)"
    using assign_colors_returns
      [of "es_stack st" "replicate (length ?orig) usize_max" "es_graph st" "es_k st"]
    by auto
  from ok st(1,4) colors(1)
  have "minimal_coloring g = Some (Inr \<lparr>col_k = es_k st, col_nodes = colors\<rparr>)"
    by (simp add: minimal_coloring_def check_invariants_decides)
  with st colors bounded deg_small have "coloring_run g st colors"
    by (simp add: coloring_run_def valid_node_def)
  then show ?thesis by blast
qed

lemma minimal_coloring_cases:
  assumes "minimal_coloring g = Some (Inr c)" and "length (nodes g) < usize_max"
  obtains st where "coloring_run g st (col_nodes c)" and "col_k c = es_k st"
proof -
  from assms(1) have "graph_ok g"
    by (auto simp: minimal_coloring_def check_invariants_decides split: if_splits)
  from minimal_coloring_run [OF this assms(2)] obtain st colors
    where run: "coloring_run g st colors" by blast
  with assms(1) have "c = \<lparr>col_k = es_k st, col_nodes = colors\<rparr>"
    by (simp add: coloring_run_def)
  with run show thesis by (intro that [of st]) simp_all
qed

lemma minimal_coloring_Inr_graph_ok: "minimal_coloring g = Some (Inr c) \<Longrightarrow> graph_ok g"
  by (auto simp: minimal_coloring_def check_invariants_decides split: if_splits)

text \<open>What a run gives for the colours: they are proper and below \<open>k\<close>.\<close>

lemma coloring_run_proper:
  assumes run: "coloring_run g st colors" and ok: "graph_ok g"
    and adj: "b \<in> neighbours g a" and ne: "a \<noteq> b"
  shows "colors ! as_index a \<noteq> colors ! as_index b"
proof -
  from adj have a: "valid_node g a" and ab: "b \<in> fset (nodes g ! as_index a)"
    by (auto simp: neighbours_def split: if_splits)
  from graph_ok_sym [OF ok a ab]
  have b: "valid_node g b" and ba: "a \<in> fset (nodes g ! as_index b)" .
  from run have stack: "set (es_stack st) = {a. valid_node g a}" "distinct (es_stack st)"
    and cert: "elim_cert (nodes g) (es_graph st) (es_k st) (es_stack st)"
    and greedy: "greedy_ok (es_k st) (es_graph st) colors (es_stack st)"
    by (simp_all add: coloring_run_def)
  from stack(1) a b have "a \<in> set (es_stack st)" "b \<in> set (es_stack st)" by simp_all
  from greedy_proper [OF cert greedy stack(2) this ne ab ba] show ?thesis .
qed

lemma coloring_run_range:
  assumes "coloring_run g st colors" and "i < length (nodes g)"
  shows "colors ! i < es_k st"
proof -
  from assms(1) have stack: "set (es_stack st) = {a. valid_node g a}"
    and greedy: "greedy_ok (es_k st) (es_graph st) colors (es_stack st)"
    by (simp_all add: coloring_run_def)
  from greedy_ok_range [OF greedy, of "NodeId i"] assms(2) stack show ?thesis
    by (simp add: valid_node_def)
qed

text \<open>
  The colours are first-fit in the graph itself: the members of the working adjacency
  set of a node are neighbours of the node, and the table starts with the sentinel,
  which is no colour below \<open>k\<close>.
\<close>

lemma coloring_run_first_fit:
  assumes run: "coloring_run g st colors" and a: "valid_node g a"
    and less: "c' < colors ! as_index a"
  shows "\<exists>b \<in> neighbours g a. colors ! as_index b = c'"
proof -
  let ?init = "replicate (length (nodes g)) usize_max"
  from run have assign: "assign_colors (es_k st) (es_graph st) (es_stack st) ?init = Inr colors"
    and stack: "set (es_stack st) = {a. valid_node g a}" "distinct (es_stack st)"
    and cert: "elim_cert (nodes g) (es_graph st) (es_k st) (es_stack st)"
    and len: "length (es_graph st) = length (nodes g)"
    and k: "es_k st \<le> max_degree (nodes g) + 1" "max_degree (nodes g) < usize_max"
    and bounded: "adj_bounded (nodes g)"
    by (simp_all add: coloring_run_def)
  have nodes: "\<forall>v \<in> set (es_stack st). as_index v < length (es_graph st) \<and>
      degree (es_graph st) v < es_k st \<and>
      (\<forall>u \<in> fset (es_graph st ! as_index v). as_index u < length (es_graph st))"
    using stack(1) len elim_cert_member [OF cert] bounded
    by (fastforce simp: adj_bounded_def valid_node_def)
  from stack(1) k have sentinel: "\<forall>v \<in> set (es_stack st). es_k st \<le> ?init ! as_index v"
    by (simp add: valid_node_def)
  from a stack(1) have on: "a \<in> set (es_stack st)" by simp
  from assign_colors_least [OF stack(2) _ nodes sentinel assign on less] len
  obtain b where b: "b \<in> fset (es_graph st ! as_index a)" "colors ! as_index b = c'"
    by auto
  from b(1) elim_cert_member(1) [OF cert on] a have "b \<in> neighbours g a"
    by (auto simp: neighbours_valid)
  with b(2) show ?thesis by blast
qed

text \<open>
  The node that was removed first had all its neighbours alive, and fewer than \<open>k\<close> of
  them: \<open>k\<close> is more than the least degree of the graph. On a graph in which every node
  has \<open>d\<close> neighbours, \<open>k\<close> is therefore \<open>d + 1\<close>.
\<close>

lemma coloring_run_min_degree:
  assumes run: "coloring_run g st colors" and ne: "nodes g \<noteq> []"
  shows "\<exists>a. valid_node g a \<and> card (neighbours g a) < es_k st"
proof -
  from run have stack: "set (es_stack st) = {a. valid_node g a}"
    and cert: "elim_cert (nodes g) (es_graph st) (es_k st) (es_stack st)"
    by (simp_all add: coloring_run_def)
  from ne have "valid_node g (NodeId 0)" by (simp add: valid_node_def)
  with stack have "es_stack st \<noteq> []" by auto
  then obtain pre v where s: "es_stack st = pre @ [v]" by (metis rev_exhaust)
  from cert [unfolded s] have "fset (es_graph st ! as_index v) = fset (nodes g ! as_index v) - set [] \<and>
      degree (es_graph st) v < es_k st"
    by (rule elim_cert_split)
  then have "card (fset (nodes g ! as_index v)) < es_k st"
    by (auto simp: degree_def bs_element_count_card)
  moreover from stack s have "valid_node g v" by auto
  ultimately show ?thesis by (auto simp: neighbours_valid)
qed

lemma max_degree_regular:
  assumes "\<And>a. valid_node g a \<Longrightarrow> card (neighbours g a) = d"
  shows "max_degree (nodes g) \<le> d"
proof (rule max_degree_cases [of "nodes g"])
  fix a
  assume a: "as_index a < length (nodes g)" "degree (nodes g) a = max_degree (nodes g)"
  with assms [of a] show ?thesis
    by (simp add: valid_node_def neighbours_def degree_def bs_element_count_card)
qed simp

lemma coloring_k_regular:
  assumes ret: "minimal_coloring g = Some (Inr c)" and small: "length (nodes g) < usize_max"
    and ne: "nodes g \<noteq> []" and reg: "\<And>a. valid_node g a \<Longrightarrow> card (neighbours g a) = d"
  shows "col_k c = d + 1"
proof -
  from ret small obtain st where run: "coloring_run g st (col_nodes c)" and k: "col_k c = es_k st"
    by (rule minimal_coloring_cases)
  from coloring_run_min_degree [OF run ne] reg have "d < es_k st" by auto
  moreover from run have "es_k st \<le> max_degree (nodes g) + 1" by (simp add: coloring_run_def)
  with max_degree_regular [of g d, OF reg] have "es_k st \<le> d + 1" by simp
  ultimately show ?thesis using k by simp
qed

text \<open>
  The two bounds that fix \<open>k\<close> on graphs that are not regular. If every non-empty set
  of nodes has a member with at most \<open>d\<close> neighbours inside the set, \<open>k\<close> is at most
  \<open>d + 1\<close>; if every node has at least \<open>m\<close> neighbours, \<open>k\<close> is more than \<open>m\<close>.
\<close>

lemma coloring_k_degenerate:
  assumes ret: "minimal_coloring g = Some (Inr c)" and small: "length (nodes g) < usize_max"
    and deg: "\<And>S. S \<noteq> {} \<Longrightarrow> S \<subseteq> {a. valid_node g a} \<Longrightarrow>
      \<exists>a \<in> S. card (neighbours g a \<inter> S) \<le> d"
  shows "col_k c \<le> d + 1"
proof -
  from ret small obtain st where run: "coloring_run g st (col_nodes c)" and k: "col_k c = es_k st"
    by (rule minimal_coloring_cases)
  then have loop: "elim_loop (elim_init (nodes g)) = Some (Inr st)"
    and bounded: "adj_bounded (nodes g)" and small': "max_degree (nodes g) < usize_max"
    by (simp_all add: coloring_run_def)
  from elimination_core [OF bounded small' loop] have core: "dense_core (nodes g) (es_k st)" .
  show ?thesis
  proof (cases "es_k st = 0")
    case True
    with k show ?thesis by simp
  next
    case False
    with core obtain S where S: "S \<noteq> {}" "S \<subseteq> {a. as_index a < length (nodes g)}"
      "\<forall>a \<in> S. es_k st \<le> card (fset (nodes g ! as_index a) \<inter> S) + 1"
      unfolding dense_core_def by auto
    from S(2) have "S \<subseteq> {a. valid_node g a}" by (simp add: valid_node_def)
    from deg [OF S(1) this] obtain a where a: "a \<in> S" "card (neighbours g a \<inter> S) \<le> d"
      by blast
    from a(1) S(2) have "as_index a < length (nodes g)" by auto
    then have "neighbours g a = fset (nodes g ! as_index a)"
      by (simp add: neighbours_def valid_node_def)
    with a(2) have "card (fset (nodes g ! as_index a) \<inter> S) \<le> d" by simp
    moreover from S(3) a(1) have "es_k st \<le> card (fset (nodes g ! as_index a) \<inter> S) + 1"
      by blast
    ultimately show ?thesis using k by simp
  qed
qed

lemma coloring_k_min_degree:
  assumes ret: "minimal_coloring g = Some (Inr c)" and small: "length (nodes g) < usize_max"
    and ne: "nodes g \<noteq> []" and low: "\<And>a. valid_node g a \<Longrightarrow> m \<le> card (neighbours g a)"
  shows "m < col_k c"
proof -
  from ret small obtain st where run: "coloring_run g st (col_nodes c)" and k: "col_k c = es_k st"
    by (rule minimal_coloring_cases)
  from coloring_run_min_degree [OF run ne] low k show ?thesis by (auto intro: le_less_trans)
qed

text \<open>
  The facts about a call on a graph that passes the check, for the proofs about
  families of graphs.
\<close>

lemma minimal_coloring_facts:
  assumes ok: "graph_ok g" and small: "length (nodes g) < usize_max"
  obtains (facts) c where "minimal_coloring g = Some (Inr c)"
    and "length (col_nodes c) = length (nodes g)"
    and "\<And>i. i < length (nodes g) \<Longrightarrow> col_nodes c ! i < col_k c"
    and "\<And>a b. b \<in> neighbours g a \<Longrightarrow> a \<noteq> b \<Longrightarrow>
      col_nodes c ! as_index a \<noteq> col_nodes c ! as_index b"
    and "col_k c \<le> max_degree (nodes g) + 1"
    and "col_k c = 0 \<longleftrightarrow> nodes g = []"
proof -
  from minimal_coloring_run [OF ok small] obtain st colors
    where run: "coloring_run g st colors" by blast
  let ?c = "\<lparr>col_k = es_k st, col_nodes = colors\<rparr>"
  from run have ret: "minimal_coloring g = Some (Inr ?c)"
    and len: "length colors = length (nodes g)"
    and k: "es_k st \<le> max_degree (nodes g) + 1"
    and loop: "elim_loop (elim_init (nodes g)) = Some (Inr st)"
    and deg: "max_degree (nodes g) < usize_max"
    by (simp_all add: coloring_run_def)
  show thesis
  proof (rule facts [of ?c])
    show "col_k ?c = 0 \<longleftrightarrow> nodes g = []"
      using elim_k_zero_iff [OF loop deg] by simp
  qed (use ret len k coloring_run_range [OF run] coloring_run_proper [OF run ok] in simp_all)
qed

section \<open>Correctness of \<open>minimal_coloring\<close>\<close>

text \<open>
  C2. On every graph that passes \<open>check_invariants\<close> and has fewer than \<open>usize_max\<close>
  nodes, \<open>minimal_coloring\<close> returns a colouring: the elimination loop ends, no index
  is out of bounds, and \<open>unwrap\<close> always finds a free colour.
\<close>

theorem minimal_coloring_returns:
  assumes "graph_ok g" and "length (nodes g) < usize_max"
  shows "\<exists>c. minimal_coloring g = Some (Inr c)"
  using minimal_coloring_run [OF assms] by (auto simp: coloring_run_def)

text \<open>
  C1. The colouring that \<open>minimal_coloring\<close> returns is proper: two distinct nodes
  that are adjacent in the graph have distinct colours.
\<close>

theorem minimal_coloring_proper:
  assumes ret: "minimal_coloring g = Some (Inr c)" and small: "length (nodes g) < usize_max"
    and adj: "b \<in> neighbours g a" and ne: "a \<noteq> b"
  shows "col_nodes c ! as_index a \<noteq> col_nodes c ! as_index b"
proof -
  from ret have ok: "graph_ok g" by (rule minimal_coloring_Inr_graph_ok)
  from ret small obtain st where run: "coloring_run g st (col_nodes c)"
    by (rule minimal_coloring_cases)
  from coloring_run_proper [OF run ok adj ne] show ?thesis .
qed

text \<open>
  C3. The colouring that \<open>minimal_coloring\<close> returns has one colour per node of the
  graph, and every colour is below \<open>k\<close>: no node keeps the initial value \<open>usize_max\<close>.
\<close>

theorem minimal_coloring_range:
  assumes ret: "minimal_coloring g = Some (Inr c)" and small: "length (nodes g) < usize_max"
  shows "length (col_nodes c) = length (nodes g) \<and>
    (\<forall>i < length (nodes g). col_nodes c ! i < col_k c)"
proof -
  from ret small obtain st where run: "coloring_run g st (col_nodes c)" and k: "col_k c = es_k st"
    by (rule minimal_coloring_cases)
  then have len: "length (col_nodes c) = length (nodes g)"
    by (simp add: coloring_run_def)
  with k coloring_run_range [OF run] show ?thesis by simp
qed

text \<open>
  C4. The number of colours \<open>k\<close> that \<open>minimal_coloring\<close> returns is at most the
  largest degree of the graph plus one.
\<close>

theorem minimal_coloring_bound:
  assumes ret: "minimal_coloring g = Some (Inr c)" and small: "length (nodes g) < usize_max"
  shows "col_k c \<le> max_degree (nodes g) + 1"
proof -
  from ret small obtain st where "coloring_run g st (col_nodes c)" and "col_k c = es_k st"
    by (rule minimal_coloring_cases)
  then show ?thesis by (simp add: coloring_run_def)
qed

text \<open>
  C7. On a graph that fails \<open>check_invariants\<close>, \<open>minimal_coloring\<close> panics with the
  failed assertion before it does anything else.
\<close>

theorem minimal_coloring_panics:
  assumes "\<not> graph_ok g"
  shows "minimal_coloring g = Some (Inl AssertionFailed)"
  using assms by (simp add: minimal_coloring_def check_invariants_decides)

text \<open>
  C12. The returned \<open>k\<close> is the least bound that an elimination order can have: in
  every stack that holds all nodes of a non-empty graph, some node has at least \<open>k - 1\<close>
  neighbours outside the part of the stack below it. With the order that the first
  phase finds, in which every node has fewer than \<open>k\<close> such neighbours, \<open>k - 1\<close> is
  the degeneracy of the graph.
\<close>

theorem minimal_coloring_k_optimal:
  assumes ret: "minimal_coloring g = Some (Inr c)" and small: "length (nodes g) < usize_max"
    and ne: "nodes g \<noteq> []" and all: "{a. valid_node g a} \<subseteq> set stack"
  shows "\<exists>pre v rest. stack = pre @ v # rest \<and> col_k c \<le> card (neighbours g v - set rest) + 1"
proof -
  from ret small obtain st where run: "coloring_run g st (col_nodes c)" and k: "col_k c = es_k st"
    by (rule minimal_coloring_cases)
  then have loop: "elim_loop (elim_init (nodes g)) = Some (Inr st)"
    and bounded: "adj_bounded (nodes g)" and deg: "max_degree (nodes g) < usize_max"
    by (simp_all add: coloring_run_def)
  from elimination_core [OF bounded deg loop] elim_k_pos [OF loop deg ne] all
  have "\<exists>pre v rest. stack = pre @ v # rest \<and> as_index v < length (nodes g) \<and>
      es_k st \<le> card (fset (nodes g ! as_index v) - set rest) + 1"
    by (intro dense_core_order) (simp_all add: valid_node_def)
  with k show ?thesis by (auto simp: neighbours_def valid_node_def)
qed

text \<open>
  C34. On a graph in which every non-empty set of nodes has a member with at most \<open>d\<close>
  neighbours inside the set (a \<open>d\<close>-degenerate graph: \<open>d = 1\<close> for forests, \<open>d = 5\<close>
  for planar graphs), the returned \<open>k\<close> is at most \<open>d + 1\<close>.
\<close>

theorem minimal_coloring_degenerate:
  assumes ret: "minimal_coloring g = Some (Inr c)" and small: "length (nodes g) < usize_max"
    and deg: "\<And>S. S \<noteq> {} \<Longrightarrow> S \<subseteq> {a. valid_node g a} \<Longrightarrow>
      \<exists>a \<in> S. card (neighbours g a \<inter> S) \<le> d"
  shows "col_k c \<le> d + 1"
  using assms by (rule coloring_k_degenerate)

text \<open>
  C37. A set of nodes that are pairwise adjacent has at most \<open>k\<close> members: the returned
  \<open>k\<close> is at least the size of every clique of the graph.
\<close>

theorem minimal_coloring_clique:
  assumes ret: "minimal_coloring g = Some (Inr c)" and small: "length (nodes g) < usize_max"
    and S: "S \<subseteq> {a. valid_node g a}"
    and clique: "\<And>a b. a \<in> S \<Longrightarrow> b \<in> S \<Longrightarrow> a \<noteq> b \<Longrightarrow> b \<in> neighbours g a"
  shows "card S \<le> col_k c"
proof -
  let ?f = "\<lambda>a. col_nodes c ! as_index a"
  from ret have ok: "graph_ok g" by (rule minimal_coloring_Inr_graph_ok)
  from ret small obtain st where run: "coloring_run g st (col_nodes c)" and k: "col_k c = es_k st"
    by (rule minimal_coloring_cases)
  have "inj_on ?f S"
    using coloring_run_proper [OF run ok clique] by (auto simp: inj_on_def)
  then have "card S = card (?f ` S)" by (simp add: card_image)
  also have "?f ` S \<subseteq> {0..<col_k c}"
    using coloring_run_range [OF run] S k by (auto simp: valid_node_def)
  then have "card (?f ` S) \<le> card {0..<col_k c}" by (intro card_mono) simp_all
  finally show ?thesis by simp
qed

text \<open>
  C38. The colouring is first-fit: for every colour below the colour of a node, the node
  has a neighbour of that colour. So no single node can be given a smaller colour, the
  colour of a node is at most the number of its neighbours, and a node without
  neighbours gets the colour \<open>0\<close>.
\<close>

theorem minimal_coloring_first_fit:
  assumes ret: "minimal_coloring g = Some (Inr c)" and small: "length (nodes g) < usize_max"
    and a: "valid_node g a"
  shows "(\<forall>c' < col_nodes c ! as_index a. \<exists>b \<in> neighbours g a. col_nodes c ! as_index b = c') \<and>
    col_nodes c ! as_index a \<le> card (neighbours g a)"
proof -
  let ?col = "\<lambda>b. col_nodes c ! as_index b"
  from ret small obtain st where run: "coloring_run g st (col_nodes c)"
    by (rule minimal_coloring_cases)
  have below: "\<exists>b \<in> neighbours g a. ?col b = c'" if "c' < ?col a" for c'
    using run a that by (rule coloring_run_first_fit)
  then have "{0..<?col a} \<subseteq> ?col ` neighbours g a" by force
  then have "card {0..<?col a} \<le> card (?col ` neighbours g a)" by (intro card_mono) simp_all
  also have "\<dots> \<le> card (neighbours g a)" by (intro card_image_le) simp
  finally show ?thesis using below by simp
qed

text \<open>
  C19. Reading the adjacency sets of the graph itself in the greedy loop, as the
  specification describes it, gives the same result as reading those of the working
  graph, as the code does.
\<close>

theorem minimal_coloring_orig_eq:
  assumes small: "length (nodes g) < usize_max"
  shows "minimal_coloring_orig g = minimal_coloring g"
proof (cases "graph_ok g")
  case False
  then show ?thesis
    by (simp add: minimal_coloring_def minimal_coloring_orig_def check_invariants_decides)
next
  case True
  from minimal_coloring_run [OF True small] obtain st colors
    where run: "coloring_run g st colors" by blast
  then have loop: "elim_loop (elim_init (nodes g)) = Some (Inr st)"
    and len: "length (es_graph st) = length (nodes g)"
    and stack: "set (es_stack st) = {a. valid_node g a}"
    and k: "es_k st \<le> max_degree (nodes g) + 1" "max_degree (nodes g) < usize_max"
    by (simp_all add: coloring_run_def)
  from run k stack have "assign_colors (es_k st) (es_graph st) (es_stack st)
      (replicate (length (nodes g)) usize_max) =
    assign_colors (es_k st) (nodes g) (es_stack st) (replicate (length (nodes g)) usize_max)"
    by (intro assign_colors_orig) (simp_all add: coloring_run_def valid_node_def)
  with True loop len show ?thesis
    by (simp add: minimal_coloring_def minimal_coloring_orig_def check_invariants_decides)
qed

text \<open>
  C20. The returned \<open>k\<close> is \<open>0\<close> exactly for the graph without nodes.
\<close>

theorem minimal_coloring_k_zero:
  assumes ret: "minimal_coloring g = Some (Inr c)" and small: "length (nodes g) < usize_max"
  shows "col_k c = 0 \<longleftrightarrow> nodes g = []"
proof -
  from ret small obtain st where run: "coloring_run g st (col_nodes c)" and k: "col_k c = es_k st"
    by (rule minimal_coloring_cases)
  then have loop: "elim_loop (elim_init (nodes g)) = Some (Inr st)"
    and deg: "max_degree (nodes g) < usize_max"
    by (simp_all add: coloring_run_def)
  from elim_k_zero_iff [OF loop deg] k show ?thesis by simp
qed

section \<open>The theorems on the graph of the crate's test\<close>

lemma minimal_coloring_simple_graph:
  "minimal_coloring simple_graph = Some (Inr \<lparr>col_k = 3, col_nodes = [2, 2, 1, 0]\<rparr>)"
  by code_simp

theorem minimal_coloring_returns_witness:
  "graph_ok simple_graph \<and> length (nodes simple_graph) < usize_max \<and>
   (\<exists>c. minimal_coloring simple_graph = Some (Inr c))"
  using simple_graph_ok simple_graph_small
    minimal_coloring_returns [OF simple_graph_ok simple_graph_small]
  by simp

theorem minimal_coloring_proper_witness:
  "minimal_coloring simple_graph = Some (Inr \<lparr>col_k = 3, col_nodes = [2, 2, 1, 0]\<rparr>) \<and>
   length (nodes simple_graph) < usize_max \<and>
   NodeId 3 \<in> neighbours simple_graph (NodeId 2) \<and> NodeId 2 \<noteq> NodeId 3 \<and>
   col_nodes \<lparr>col_k = 3, col_nodes = [2, 2, 1, 0]\<rparr> ! as_index (NodeId 2) \<noteq>
   col_nodes \<lparr>col_k = 3, col_nodes = [2, 2, 1, 0]\<rparr> ! as_index (NodeId 3)"
proof -
  have adj: "NodeId 3 \<in> neighbours simple_graph (NodeId 2)"
    by (simp add: neighbours_def valid_node_def simple_graph_def)
  have ne: "NodeId 2 \<noteq> NodeId 3" by simp
  from minimal_coloring_proper [OF minimal_coloring_simple_graph simple_graph_small adj ne]
    minimal_coloring_simple_graph simple_graph_small adj
  show ?thesis by simp
qed

theorem minimal_coloring_range_witness:
  "minimal_coloring simple_graph = Some (Inr \<lparr>col_k = 3, col_nodes = [2, 2, 1, 0]\<rparr>) \<and>
   length (nodes simple_graph) < usize_max \<and>
   length (col_nodes \<lparr>col_k = 3, col_nodes = [2, 2, 1, 0]\<rparr>) = length (nodes simple_graph) \<and>
   col_nodes \<lparr>col_k = 3, col_nodes = [2, 2, 1, 0]\<rparr> ! 0 <
     col_k \<lparr>col_k = 3, col_nodes = [2, 2, 1, 0]\<rparr>"
  using minimal_coloring_range [OF minimal_coloring_simple_graph simple_graph_small]
    minimal_coloring_simple_graph simple_graph_small
  by (simp add: simple_graph_def)

theorem minimal_coloring_bound_witness:
  "minimal_coloring simple_graph = Some (Inr \<lparr>col_k = 3, col_nodes = [2, 2, 1, 0]\<rparr>) \<and>
   length (nodes simple_graph) < usize_max \<and>
   col_k \<lparr>col_k = 3, col_nodes = [2, 2, 1, 0]\<rparr> \<le> max_degree (nodes simple_graph) + 1"
  using minimal_coloring_bound [OF minimal_coloring_simple_graph simple_graph_small]
    minimal_coloring_simple_graph simple_graph_small
  by simp

theorem minimal_coloring_panics_witness:
  "\<not> graph_ok \<lparr>nodes = [{|NodeId 1|}, {||}]\<rparr> \<and>
   minimal_coloring \<lparr>nodes = [{|NodeId 1|}, {||}]\<rparr> = Some (Inl AssertionFailed)"
proof -
  have "check_invariants \<lparr>nodes = [{|NodeId 1|}, {||}]\<rparr> = Inl AssertionFailed"
    by code_simp
  then have bad: "\<not> graph_ok \<lparr>nodes = [{|NodeId 1|}, {||}]\<rparr>"
    by (simp add: check_invariants_decides split: if_splits)
  with minimal_coloring_panics [OF bad] show ?thesis by simp
qed

lemma simple_graph_nonempty: "nodes simple_graph \<noteq> []"
  by (simp add: simple_graph_def)

theorem minimal_coloring_k_optimal_witness:
  "\<exists>pre v rest. [NodeId 0, NodeId 1, NodeId 2, NodeId 3] = pre @ v # rest \<and>
     col_k \<lparr>col_k = 3, col_nodes = [2, 2, 1, 0]\<rparr> \<le> card (neighbours simple_graph v - set rest) + 1"
proof (rule minimal_coloring_k_optimal
    [OF minimal_coloring_simple_graph simple_graph_small simple_graph_nonempty])
  show "{a. valid_node simple_graph a} \<subseteq> set [NodeId 0, NodeId 1, NodeId 2, NodeId 3]"
    using set_index_iter [of "nodes simple_graph"]
    by (simp add: valid_node_def index_iter_simple_graph)
qed

theorem minimal_coloring_degenerate_witness:
  "minimal_coloring \<lparr>nodes = [{||}, {||}]\<rparr> = Some (Inr \<lparr>col_k = 1, col_nodes = [0, 0]\<rparr>) \<and>
   length (nodes \<lparr>nodes = [{||}, {||}]\<rparr>) < usize_max \<and>
   col_k \<lparr>col_k = 1, col_nodes = [0, 0]\<rparr> \<le> 0 + 1"
proof -
  let ?g = "\<lparr>nodes = [{||}, {||}]\<rparr>"
  have ret: "minimal_coloring ?g = Some (Inr \<lparr>col_k = 1, col_nodes = [0, 0]\<rparr>)"
    by code_simp
  have small: "length (nodes ?g) < usize_max" by (simp add: usize_max_def)
  have "neighbours ?g a = {}" for a
    by (auto simp: neighbours_def valid_node_def less_Suc_eq numeral_2_eq_2)
  then have "\<exists>a \<in> S. card (neighbours ?g a \<inter> S) \<le> 0" if "S \<noteq> {}" for S
    using that by auto
  from minimal_coloring_degenerate [OF ret small this] ret small show ?thesis by simp
qed

theorem minimal_coloring_clique_witness:
  "minimal_coloring simple_graph = Some (Inr \<lparr>col_k = 3, col_nodes = [2, 2, 1, 0]\<rparr>) \<and>
   length (nodes simple_graph) < usize_max \<and>
   card {NodeId 0, NodeId 2, NodeId 3} \<le> col_k \<lparr>col_k = 3, col_nodes = [2, 2, 1, 0]\<rparr>"
proof -
  let ?S = "{NodeId 0, NodeId 2, NodeId 3}"
  have S: "?S \<subseteq> {a. valid_node simple_graph a}"
    by (simp add: valid_node_def simple_graph_def)
  have "b \<in> neighbours simple_graph a" if "a \<in> ?S" "b \<in> ?S" "a \<noteq> b" for a b
    using that by (auto simp: neighbours_def valid_node_def simple_graph_def)
  from minimal_coloring_clique [OF minimal_coloring_simple_graph simple_graph_small S this]
    minimal_coloring_simple_graph simple_graph_small
  show ?thesis by blast
qed

theorem minimal_coloring_orig_eq_witness:
  "length (nodes simple_graph) < usize_max \<and>
   minimal_coloring_orig simple_graph = Some (Inr \<lparr>col_k = 3, col_nodes = [2, 2, 1, 0]\<rparr>)"
  using minimal_coloring_orig_eq [OF simple_graph_small] simple_graph_small
    minimal_coloring_simple_graph
  by simp

theorem minimal_coloring_k_zero_witness:
  "minimal_coloring new = Some (Inr \<lparr>col_k = 0, col_nodes = []\<rparr>) \<and>
   length (nodes new) < usize_max \<and>
   (col_k \<lparr>col_k = 0, col_nodes = []\<rparr> = 0 \<longleftrightarrow> nodes new = [])"
proof -
  have ret: "minimal_coloring new = Some (Inr \<lparr>col_k = 0, col_nodes = []\<rparr>)"
    by code_simp
  have small: "length (nodes new) < usize_max" by code_simp
  from minimal_coloring_k_zero [OF ret small] ret small show ?thesis by simp
qed

theorem minimal_coloring_first_fit_witness:
  "minimal_coloring simple_graph = Some (Inr \<lparr>col_k = 3, col_nodes = [2, 2, 1, 0]\<rparr>) \<and>
   length (nodes simple_graph) < usize_max \<and> valid_node simple_graph (NodeId 0) \<and>
   (\<exists>b. b \<in> neighbours simple_graph (NodeId 0) \<and>
      col_nodes \<lparr>col_k = 3, col_nodes = [2, 2, 1, 0]\<rparr> ! as_index b = 0) \<and>
   (\<exists>b. b \<in> neighbours simple_graph (NodeId 0) \<and>
      col_nodes \<lparr>col_k = 3, col_nodes = [2, 2, 1, 0]\<rparr> ! as_index b = 1) \<and>
   col_nodes \<lparr>col_k = 3, col_nodes = [2, 2, 1, 0]\<rparr> ! as_index (NodeId 0) \<le>
     card (neighbours simple_graph (NodeId 0))"
proof -
  have a: "valid_node simple_graph (NodeId 0)" by (simp add: valid_node_def simple_graph_def)
  from minimal_coloring_first_fit [OF minimal_coloring_simple_graph simple_graph_small a]
  have "\<forall>c' < 2. \<exists>b \<in> neighbours simple_graph (NodeId 0). [2, 2, 1, 0 :: nat] ! as_index b = c'"
    and "2 \<le> card (neighbours simple_graph (NodeId 0))"
    by simp_all
  from this(1) [rule_format, of 0] this(1) [rule_format, of 1] this(2)
    minimal_coloring_simple_graph simple_graph_small a
  show ?thesis by (simp add: Bex_def)
qed

end
