(* ===== verification/Families.thy ===== *)
theory Families
  imports Coloring
begin

text \<open>
  \<open>Graph::minimal_coloring\<close> on families of graphs: the scenarios that the
  specification describes, and the families that they belong to.

  \<^item> \<open>edgeless n\<close>: \<open>n\<close> nodes without an edge; \<open>complete_graph n\<close>: \<open>n\<close> nodes
    with every edge; \<open>cycle_graph n\<close>: the cycle on \<open>n\<close> nodes, in which node \<open>i\<close> is
    joined to \<open>ring_succ n i\<close> and \<open>ring_pred n i\<close>; \<open>cycle4\<close>: the cycle on four
    nodes, written out; \<open>star_graph n\<close>: node \<open>0\<close> joined to each of the others;
    \<open>path_graph n\<close>: node \<open>i\<close> joined to node \<open>i + 1\<close>.
  \<^item> The returned \<open>k\<close> on each family follows from one fact, \<open>coloring_k_regular\<close> of
    theory \<open>Coloring\<close>: on a graph in which every node has \<open>d\<close> neighbours, \<open>k\<close> is
    \<open>d + 1\<close>. So \<open>k\<close> is \<open>1\<close> without edges, \<open>n\<close> on the complete graph, and \<open>3\<close> on
    every cycle of at least three nodes.
  \<^item> A cycle of even length has a proper colouring with two colours, the parity of the
    index (\<open>even_cycle_two_colours\<close>): there the returned \<open>k\<close> is larger than the
    number of colours that the graph needs.
  \<^item> On graphs that are not regular \<open>k\<close> lies between two bounds of theory
    \<open>Coloring\<close>, \<open>coloring_k_min_degree\<close> and \<open>coloring_k_degenerate\<close>. If every node
    has at most \<open>d\<close> neighbours of a smaller index, \<open>k\<close> is at most \<open>d + 1\<close>
    (\<open>coloring_k_back_degree\<close>); so \<open>k\<close> is \<open>2\<close> on the stars and on the paths of at
    least two nodes (\<open>minimal_coloring_star\<close>, \<open>minimal_coloring_path\<close>), the number of
    colours that these graphs need, although the centre of a star has as many
    neighbours as there are other nodes.
\<close>

section \<open>The graphs\<close>

definition edgeless :: "nat \<Rightarrow> Graph" where
  "edgeless n = \<lparr>nodes = replicate n bs_new\<rparr>"

definition complete_graph :: "nat \<Rightarrow> Graph" where
  "complete_graph n =
     \<lparr>nodes = map (\<lambda>i. bs_remove (NodeId i) (bs_collect (map NodeId [0..<n]))) [0..<n]\<rparr>"

definition cycle4 :: Graph where
  "cycle4 = \<lparr>nodes = [{|NodeId 1, NodeId 3|}, {|NodeId 0, NodeId 2|},
                       {|NodeId 1, NodeId 3|}, {|NodeId 0, NodeId 2|}]\<rparr>"

definition ring_succ :: "nat \<Rightarrow> nat \<Rightarrow> nat" where
  "ring_succ n i = (i + 1) mod n"

definition ring_pred :: "nat \<Rightarrow> nat \<Rightarrow> nat" where
  "ring_pred n i = (i + n - 1) mod n"

definition cycle_graph :: "nat \<Rightarrow> Graph" where
  "cycle_graph n =
     \<lparr>nodes = map (\<lambda>i. bs_collect [NodeId (ring_succ n i), NodeId (ring_pred n i)]) [0..<n]\<rparr>"

definition star_graph :: "nat \<Rightarrow> Graph" where
  "star_graph n =
     \<lparr>nodes = map (\<lambda>i. bs_collect (if i = 0 then map NodeId [1..<n] else [NodeId 0])) [0..<n]\<rparr>"

definition path_graph :: "nat \<Rightarrow> Graph" where
  "path_graph n =
     \<lparr>nodes = map (\<lambda>i. bs_collect (map NodeId
        ((if i = 0 then [] else [i - 1]) @ (if Suc i < n then [Suc i] else [])))) [0..<n]\<rparr>"

section \<open>Neighbourhoods\<close>

lemma Coloring_eqI: "col_k c = k \<Longrightarrow> col_nodes c = cs \<Longrightarrow> c = \<lparr>col_k = k, col_nodes = cs\<rparr>"
  by (cases c) simp

lemma neighbours_edgeless [simp]: "neighbours (edgeless n) a = {}"
  by (simp add: neighbours_def valid_node_def edgeless_def bs_new_def)

lemma graph_ok_edgeless: "graph_ok (edgeless n)"
  by (simp add: graph_ok_def)

lemma neighbours_complete:
  "neighbours (complete_graph n) a = (if as_index a < n then {b. as_index b < n} - {a} else {})"
  by (cases a)
    (auto simp: neighbours_def valid_node_def complete_graph_def simp flip: NodeId_as_index_image)

lemma length_nodes_complete [simp]: "length (nodes (complete_graph n)) = n"
  by (simp add: complete_graph_def)

lemma graph_ok_complete: "graph_ok (complete_graph n)"
  by (auto simp: graph_ok_def neighbours_complete valid_node_def split: if_splits)

lemma card_neighbours_complete:
  "valid_node (complete_graph n) a \<Longrightarrow> card (neighbours (complete_graph n) a) = n - 1"
  by (simp add: neighbours_complete valid_node_def)

text \<open>Successor and predecessor on a ring of \<open>n\<close> indices.\<close>

lemma ring_succ_eq: "i < n \<Longrightarrow> ring_succ n i = (if Suc i = n then 0 else Suc i)"
  by (simp add: ring_succ_def)

lemma ring_pred_eq: "i < n \<Longrightarrow> ring_pred n i = (if i = 0 then n - 1 else i - 1)"
proof (cases i)
  case 0
  then show "i < n \<Longrightarrow> ?thesis" by (simp add: ring_pred_def)
next
  case (Suc j)
  then have "i + n - 1 = n + j" by simp
  then have "ring_pred n i = j mod n" by (simp add: ring_pred_def)
  with Suc show "i < n \<Longrightarrow> ?thesis" by simp
qed

lemma ring_less: "0 < n \<Longrightarrow> ring_succ n i < n" "0 < n \<Longrightarrow> ring_pred n i < n"
  by (simp_all add: ring_succ_def ring_pred_def)

lemma ring_inverse:
  assumes "i < n"
  shows "ring_pred n (ring_succ n i) = i" and "ring_succ n (ring_pred n i) = i"
  using assms by (auto simp: ring_succ_eq ring_pred_eq)

lemma ring_succ_ne_pred: "3 \<le> n \<Longrightarrow> i < n \<Longrightarrow> ring_succ n i \<noteq> ring_pred n i"
  by (auto simp: ring_succ_eq ring_pred_eq)

lemma ring_parity:
  assumes "even n" and "i < n"
  shows "ring_succ n i mod 2 \<noteq> i mod 2" and "ring_pred n i mod 2 \<noteq> i mod 2"
proof -
  from assms show "ring_succ n i mod 2 \<noteq> i mod 2"
    by (cases "Suc i = n") (auto simp: ring_succ_eq, presburger+)
  from assms show "ring_pred n i mod 2 \<noteq> i mod 2"
    by (cases i) (auto simp: ring_pred_eq, presburger+)
qed

text \<open>The cycles.\<close>

lemma neighbours_cycle_graph:
  "neighbours (cycle_graph n) a =
     (if as_index a < n
      then {NodeId (ring_succ n (as_index a)), NodeId (ring_pred n (as_index a))} else {})"
  by (simp add: neighbours_def valid_node_def cycle_graph_def)

lemma length_nodes_cycle [simp]: "length (nodes (cycle_graph n)) = n"
  by (simp add: cycle_graph_def)

lemma graph_ok_cycle_graph: "graph_ok (cycle_graph n)"
  unfolding graph_ok_def
proof (intro allI impI)
  fix a b
  assume "b \<in> neighbours (cycle_graph n) a"
  then have a: "as_index a < n"
    and b: "as_index b = ring_succ n (as_index a) \<or> as_index b = ring_pred n (as_index a)"
    by (auto simp: neighbours_cycle_graph split: if_splits)
  from a b have "as_index b < n" using ring_less [of n "as_index a"] by auto
  moreover from a b have "as_index a = ring_pred n (as_index b) \<or>
      as_index a = ring_succ n (as_index b)"
    by (auto simp: ring_inverse)
  then have "a = NodeId (ring_pred n (as_index b)) \<or> a = NodeId (ring_succ n (as_index b))"
    by (cases a) auto
  ultimately show "valid_node (cycle_graph n) b \<and> a \<in> neighbours (cycle_graph n) b"
    by (auto simp: neighbours_cycle_graph valid_node_def)
qed

lemma card_neighbours_cycle_graph:
  assumes "3 \<le> n" and "valid_node (cycle_graph n) a"
  shows "card (neighbours (cycle_graph n) a) = 2"
  using assms ring_succ_ne_pred [of n "as_index a"]
  by (simp add: neighbours_cycle_graph valid_node_def)

lemma cycle_graph_4: "cycle_graph 4 = cycle4"
  by code_simp

lemma graph_ok_cycle4: "graph_ok cycle4"
  using graph_ok_cycle_graph [of 4] by (simp add: cycle_graph_4)

lemma card_neighbours_cycle4: "valid_node cycle4 a \<Longrightarrow> card (neighbours cycle4 a) = 2"
  using card_neighbours_cycle_graph [of 4 a] by (simp add: cycle_graph_4)

text \<open>The stars and the paths.\<close>

lemma NodeId_eq_conv: "a = NodeId i \<longleftrightarrow> as_index a = i"
  by (cases a) auto

lemma neighbours_star:
  "neighbours (star_graph n) a =
     (if as_index a < n
      then (if as_index a = 0 then {b. 0 < as_index b \<and> as_index b < n} else {NodeId 0})
      else {})"
proof -
  have "NodeId ` {Suc 0..<n} = {b. 0 < as_index b \<and> as_index b < n}"
  proof -
    have "b \<in> NodeId ` {Suc 0..<n}" if "0 < as_index b" "as_index b < n" for b
      using that by (cases b) simp
    then show ?thesis by auto
  qed
  then show ?thesis by (simp add: neighbours_def valid_node_def star_graph_def)
qed

lemma length_nodes_star [simp]: "length (nodes (star_graph n)) = n"
  by (simp add: star_graph_def)

lemma graph_ok_star: "graph_ok (star_graph n)"
  by (auto simp: graph_ok_def neighbours_star valid_node_def NodeId_eq_conv split: if_splits)

lemma neighbours_path:
  "neighbours (path_graph n) a =
     (if as_index a < n
      then {b. Suc (as_index b) = as_index a \<or> as_index b = Suc (as_index a) \<and> as_index b < n}
      else {})"
  by (auto simp: neighbours_def valid_node_def path_graph_def NodeId_eq_conv)

lemma length_nodes_path [simp]: "length (nodes (path_graph n)) = n"
  by (simp add: path_graph_def)

lemma graph_ok_path: "graph_ok (path_graph n)"
  by (auto simp: graph_ok_def neighbours_path valid_node_def split: if_splits)

lemma back_neighbours_star:
  "{b \<in> neighbours (star_graph n) a. as_index b \<le> as_index a} \<subseteq> {NodeId 0}"
  by (auto simp: neighbours_star split: if_splits)

lemma back_neighbours_path:
  "{b \<in> neighbours (path_graph n) a. as_index b \<le> as_index a} \<subseteq> {NodeId (as_index a - 1)}"
  by (auto simp: neighbours_path NodeId_eq_conv split: if_splits)

lemma some_neighbour_star:
  assumes "2 \<le> n" and "valid_node (star_graph n) a"
  shows "1 \<le> card (neighbours (star_graph n) a)"
proof -
  from assms have "neighbours (star_graph n) a \<noteq> {}"
    by (auto simp: neighbours_star valid_node_def intro: exI [of _ "NodeId 1"])
  then show ?thesis by (simp add: Suc_le_eq card_gt_0_iff)
qed

lemma some_neighbour_path:
  assumes "2 \<le> n" and "valid_node (path_graph n) a"
  shows "1 \<le> card (neighbours (path_graph n) a)"
proof -
  from assms have "NodeId (as_index a - 1) \<in> neighbours (path_graph n) a \<or>
      NodeId (Suc (as_index a)) \<in> neighbours (path_graph n) a"
    by (auto simp: neighbours_path valid_node_def)
  then have "neighbours (path_graph n) a \<noteq> {}" by auto
  then show ?thesis by (simp add: Suc_le_eq card_gt_0_iff)
qed

section \<open>The colourings\<close>

text \<open>
  On the empty graph \<open>minimal_coloring\<close> returns \<open>k = 0\<close> and an empty table of
  colours.
\<close>

lemma minimal_coloring_new: "minimal_coloring new = Some (Inr \<lparr>col_k = 0, col_nodes = []\<rparr>)"
  by code_simp

text \<open>
  C27. On a graph with \<open>n > 0\<close> nodes and no edge \<open>minimal_coloring\<close> returns
  \<open>k = 1\<close> and the colour \<open>0\<close> for every node.
\<close>

theorem minimal_coloring_edgeless:
  assumes "0 < n" and "n < usize_max"
  shows "minimal_coloring (edgeless n) = Some (Inr \<lparr>col_k = 1, col_nodes = replicate n 0\<rparr>)"
proof -
  have len: "length (nodes (edgeless n)) = n" by (simp add: edgeless_def)
  with assms(2) have small: "length (nodes (edgeless n)) < usize_max" by simp
  with graph_ok_edgeless show ?thesis
  proof (cases rule: minimal_coloring_facts)
    case (facts c)
    from assms(1) have "nodes (edgeless n) \<noteq> []" by (simp add: edgeless_def)
    with facts(1) small have k: "col_k c = 1"
      using coloring_k_regular [of "edgeless n" c 0] by simp
    with facts(2,3) len have "col_nodes c = replicate n 0"
      by (auto simp: list_eq_iff_nth_eq)
    with k facts(1) show ?thesis by (simp add: Coloring_eqI)
  qed
qed

text \<open>
  C28. On the complete graph with \<open>n\<close> nodes \<open>minimal_coloring\<close> returns \<open>k = n\<close>
  and \<open>n\<close> pairwise distinct colours.
\<close>

theorem minimal_coloring_complete:
  assumes "n < usize_max"
  shows "\<exists>c. minimal_coloring (complete_graph n) = Some (Inr c) \<and> col_k c = n \<and>
    length (col_nodes c) = n \<and> distinct (col_nodes c)"
proof -
  let ?g = "complete_graph n"
  from assms have small: "length (nodes ?g) < usize_max" by simp
  with graph_ok_complete show ?thesis
  proof (cases rule: minimal_coloring_facts)
    case c: (facts c)
    have "col_nodes c ! i \<noteq> col_nodes c ! j" if "i < n" "j < n" "i \<noteq> j" for i j
      using c(4) [of "NodeId j" "NodeId i"] that by (simp add: neighbours_complete)
    with c(2) have dist: "distinct (col_nodes c)" by (simp add: distinct_conv_nth)
    have "col_k c = n"
    proof (cases "n = 0")
      case True
      then have "nodes ?g = []" by (simp add: complete_graph_def)
      with c(6) True show ?thesis by simp
    next
      case False
      then have "nodes ?g \<noteq> []" by (simp add: complete_graph_def)
      from coloring_k_regular [OF c(1) small this card_neighbours_complete] False
      show ?thesis by simp
    qed
    with c(1,2) dist show ?thesis by auto
  qed
qed

text \<open>
  C29. On a graph with at least one node in which every node has \<open>d\<close> neighbours, the
  returned \<open>k\<close> is \<open>d + 1\<close>: \<open>1\<close> without edges, \<open>n\<close> on the complete graph, and
  \<open>3\<close> on every cycle, also on the cycles of even length, for which two colours are
  enough. \<open>k\<close> bounds the number of colours from above and is not that number.
\<close>

theorem minimal_coloring_regular:
  assumes "graph_ok g" and "length (nodes g) < usize_max" and "nodes g \<noteq> []"
    and "\<And>a. valid_node g a \<Longrightarrow> card (neighbours g a) = d"
  shows "\<exists>c. minimal_coloring g = Some (Inr c) \<and> col_k c = d + 1"
  using assms(1,2)
proof (cases rule: minimal_coloring_facts)
  case (facts c)
  from coloring_k_regular [OF facts(1) assms(2-4)] facts(1) show ?thesis by simp
qed

text \<open>
  On the cycle with four nodes \<open>k\<close> is \<open>3\<close> and the colouring uses the two colours
  \<open>0\<close> and \<open>1\<close>.
\<close>

lemma minimal_coloring_cycle4:
  "minimal_coloring cycle4 = Some (Inr \<lparr>col_k = 3, col_nodes = [1, 0, 1, 0]\<rparr>)"
  by code_simp

text \<open>
  On every cycle of at least three nodes \<open>k\<close> is \<open>3\<close>. On the cycles of even length
  the parity of the index is a proper colouring with two colours.
\<close>

lemma minimal_coloring_cycle:
  assumes "3 \<le> n" and "n < usize_max"
  shows "\<exists>c. minimal_coloring (cycle_graph n) = Some (Inr c) \<and> col_k c = 3"
proof -
  from assms(2) have small: "length (nodes (cycle_graph n)) < usize_max" by simp
  from assms(1) have ne: "nodes (cycle_graph n) \<noteq> []" by (auto simp: cycle_graph_def)
  from graph_ok_cycle_graph small show ?thesis
  proof (cases rule: minimal_coloring_facts)
    case (facts c)
    from coloring_k_regular [OF facts(1) small ne card_neighbours_cycle_graph [OF assms(1)]]
      facts(1)
    show ?thesis by simp
  qed
qed

lemma even_cycle_two_colours:
  assumes "even n" and "b \<in> neighbours (cycle_graph n) a"
  shows "as_index a mod 2 \<noteq> as_index b mod 2"
  using assms ring_parity [of n "as_index a"]
  by (auto simp: neighbours_cycle_graph split: if_splits)

text \<open>
  Graphs that are not regular. If every node has at most \<open>d\<close> neighbours of a smaller
  index, \<open>k\<close> is at most \<open>d + 1\<close>, whatever the largest degree is: the node of the
  largest index in a set of nodes has at most \<open>d\<close> neighbours in the set. A forest
  whose nodes are numbered from the roots has \<open>d = 1\<close>.
\<close>

lemma back_degree_degenerate:
  assumes earlier: "\<And>a. valid_node g a \<Longrightarrow> card {b \<in> neighbours g a. as_index b \<le> as_index a} \<le> d"
    and ne: "S \<noteq> {}" and sub: "S \<subseteq> {a. valid_node g a}"
  shows "\<exists>a \<in> S. card (neighbours g a \<inter> S) \<le> d"
proof -
  from sub have fin: "finite S" by (rule finite_subset) (simp add: valid_node_def)
  with ne obtain a where a: "a \<in> S" "as_index a = Max (as_index ` S)"
    using Max_in [of "as_index ` S"] by auto
  with fin have "as_index b \<le> as_index a" if "b \<in> S" for b using that by simp
  then have "neighbours g a \<inter> S \<subseteq> {b \<in> neighbours g a. as_index b \<le> as_index a}" by auto
  then have "card (neighbours g a \<inter> S) \<le> card {b \<in> neighbours g a. as_index b \<le> as_index a}"
    by (intro card_mono) simp_all
  also from a(1) sub have "\<dots> \<le> d" by (intro earlier) auto
  finally show ?thesis using a(1) by blast
qed

lemma coloring_k_back_degree:
  assumes ret: "minimal_coloring g = Some (Inr c)" and small: "length (nodes g) < usize_max"
    and earlier: "\<And>a. valid_node g a \<Longrightarrow> card {b \<in> neighbours g a. as_index b \<le> as_index a} \<le> d"
  shows "col_k c \<le> d + 1"
  using ret small by (rule coloring_k_degenerate) (rule back_degree_degenerate [OF earlier])

text \<open>
  On a star and on a path of at least two nodes \<open>k\<close> is \<open>2\<close>, the number of colours
  that the graph needs. The centre of the star on \<open>n\<close> nodes has \<open>n - 1\<close>
  neighbours, so \<open>k\<close> can be far below the largest degree plus one.
\<close>

lemma coloring_k_tree:
  assumes ok: "graph_ok g" and small: "length (nodes g) < usize_max" and ne: "nodes g \<noteq> []"
    and earlier: "\<And>a. valid_node g a \<Longrightarrow> card {b \<in> neighbours g a. as_index b \<le> as_index a} \<le> 1"
    and low: "\<And>a. valid_node g a \<Longrightarrow> 1 \<le> card (neighbours g a)"
  shows "\<exists>c. minimal_coloring g = Some (Inr c) \<and> col_k c = 2"
  using ok small
proof (cases rule: minimal_coloring_facts)
  case (facts c)
  from coloring_k_back_degree [OF facts(1) small earlier] coloring_k_min_degree [OF facts(1) small ne low]
  have "col_k c = 2" by simp
  with facts(1) show ?thesis by simp
qed

lemma minimal_coloring_star:
  assumes "2 \<le> n" and "n < usize_max"
  shows "\<exists>c. minimal_coloring (star_graph n) = Some (Inr c) \<and> col_k c = 2"
proof (rule coloring_k_tree [OF graph_ok_star])
  show "card {b \<in> neighbours (star_graph n) a. as_index b \<le> as_index a} \<le> 1" for a
    using card_mono [OF _ back_neighbours_star [of n a]] by simp
qed (use assms some_neighbour_star in \<open>auto simp: star_graph_def\<close>)

lemma minimal_coloring_path:
  assumes "2 \<le> n" and "n < usize_max"
  shows "\<exists>c. minimal_coloring (path_graph n) = Some (Inr c) \<and> col_k c = 2"
proof (rule coloring_k_tree [OF graph_ok_path])
  show "card {b \<in> neighbours (path_graph n) a. as_index b \<le> as_index a} \<le> 1" for a
    using card_mono [OF _ back_neighbours_path [of n a]] by simp
qed (use assms some_neighbour_path in \<open>auto simp: path_graph_def\<close>)

lemma minimal_coloring_star5:
  "minimal_coloring (star_graph 5) = Some (Inr \<lparr>col_k = 2, col_nodes = [1, 0, 0, 0, 0]\<rparr>)"
  by code_simp

lemma minimal_coloring_path5:
  "minimal_coloring (path_graph 5) = Some (Inr \<lparr>col_k = 2, col_nodes = [0, 1, 0, 1, 0]\<rparr>)"
  by code_simp

lemma max_degree_star: "0 < n \<Longrightarrow> card (neighbours (star_graph n) (NodeId 0)) = n - 1"
proof -
  assume "0 < n"
  have "{b. 0 < as_index b \<and> as_index b < n} = {b. as_index b < n} - {NodeId 0}"
    by (auto simp: NodeId_eq_conv)
  with \<open>0 < n\<close> show ?thesis by (simp add: neighbours_star)
qed

section \<open>The theorems on graphs of a few nodes\<close>

theorem minimal_coloring_edgeless_witness:
  "(0::nat) < 3 \<and> 3 < usize_max \<and>
   minimal_coloring (edgeless 3) = Some (Inr \<lparr>col_k = 1, col_nodes = replicate 3 0\<rparr>)"
  using minimal_coloring_edgeless [of 3] by (simp add: usize_max_def)

theorem minimal_coloring_complete_witness:
  "5 < usize_max \<and>
   (\<exists>c. minimal_coloring (complete_graph 5) = Some (Inr c) \<and> col_k c = 5 \<and>
      length (col_nodes c) = 5 \<and> distinct (col_nodes c))"
  using minimal_coloring_complete [of 5] by (simp add: usize_max_def)

theorem minimal_coloring_regular_witness:
  "graph_ok cycle4 \<and> length (nodes cycle4) < usize_max \<and> nodes cycle4 \<noteq> [] \<and>
   (\<exists>c. minimal_coloring cycle4 = Some (Inr c) \<and> col_k c = 2 + 1)"
proof -
  have small: "length (nodes cycle4) < usize_max" by (simp add: cycle4_def usize_max_def)
  have ne: "nodes cycle4 \<noteq> []" by (simp add: cycle4_def)
  from minimal_coloring_regular [OF graph_ok_cycle4 small ne card_neighbours_cycle4]
    graph_ok_cycle4 small ne
  show ?thesis by blast
qed

end
