(* ===== verification/Runs.thy ===== *)
theory Runs
  imports Elimination "HOL-Library.While_Combinator"
begin

text \<open>
  The outer loop of the first phase of \<open>Graph::minimal_coloring\<close> (\<open>src/lib.rs\<close>,
  lines 89 to 105) seen as a transition system, and two more ways of writing the loop.
  \<^item> \<open>elim_step\<close> is one round from a state with a living node, as a relation
    between states; its reflexive transitive closure is a run of the loop.
    \<open>elim_reach\<close> is the set of states on the runs from the initial state.
  \<^item> \<open>elim_fuel\<close> is the loop with a bound on the number of rounds: the reference
    against which the number of rounds is stated.
  \<^item> \<open>elim_while\<close> is the loop written with \<open>while_option\<close>.

  The lemmas: a round is deterministic and a state with a living node is never stuck;
  every reachable state satisfies the invariant \<open>elim_inv\<close> of theory \<open>Elimination\<close>;
  every living node is removed at some later state and stays removed; the values that
  the code keeps in variables of type \<open>usize\<close> stay below \<open>usize_max\<close>; and the three
  formulations of the loop return the same.
\<close>

section \<open>Formulations of the loop\<close>

text \<open>
  The same loop with a bound on the number of rounds: \<open>elim_fuel n\<close> runs at most \<open>n\<close>
  tests of the loop condition and gives \<open>None\<close> when that is not enough.
\<close>

fun elim_fuel :: "nat \<Rightarrow> elim_state \<Rightarrow> elim_state result option" where
  "elim_fuel 0 st = None"
| "elim_fuel (Suc n) st =
     (if bs_is_empty (es_alive st) then Some (Inr st)
      else case elim_round st of
        Inl e \<Rightarrow> Some (Inl e)
      | Inr st' \<Rightarrow> elim_fuel n st')"

text \<open>
  The loop as a \<open>while\<close> over the outcome so far: it goes on while the outcome is a
  state with a living node, and a panic ends it.
\<close>

definition elim_continue :: "elim_state result \<Rightarrow> bool" where
  "elim_continue r = (case r of Inl _ \<Rightarrow> False | Inr st \<Rightarrow> \<not> bs_is_empty (es_alive st))"

definition elim_body :: "elim_state result \<Rightarrow> elim_state result" where
  "elim_body r = bindr r elim_round"

definition elim_while :: "elim_state \<Rightarrow> elim_state result option" where
  "elim_while st = while_option elim_continue elim_body (Inr st)"

text \<open>
  The outer loop as a transition system. A step is a round that starts with a living
  node and returns; the reachable states are the initial state and the states after
  each step.
\<close>

inductive elim_step :: "elim_state \<Rightarrow> elim_state \<Rightarrow> bool" where
  step: "es_alive st \<noteq> {||} \<Longrightarrow> elim_round st = Inr st' \<Longrightarrow> elim_step st st'"

inductive elim_reach :: "NodeId bitset list \<Rightarrow> elim_state \<Rightarrow> bool" for orig where
  start: "elim_reach orig (elim_init orig)"
| round: "elim_reach orig st \<Longrightarrow> es_alive st \<noteq> {||} \<Longrightarrow> elim_round st = Inr st' \<Longrightarrow>
    elim_reach orig st'"

text \<open>
  The state of the loop on the graph of the crate's test after its second round, which
  removes the node \<open>a\<close>: the state on which the theorems about reachable states are
  applied.
\<close>

definition simple_graph_removed :: elim_state where
  "simple_graph_removed =
     \<lparr>es_k = 3, es_stack = [NodeId 0],
      es_graph = [{|NodeId 2, NodeId 3|}, {|NodeId 2, NodeId 3|},
                  {|NodeId 1, NodeId 3|}, {|NodeId 1, NodeId 2|}],
      es_alive = {|NodeId 1, NodeId 2, NodeId 3|}\<rparr>"

code_pred elim_step .

inductive_simps elim_step_iff: "elim_step st st'"

section \<open>Steps\<close>

text \<open>
  A step is determined by its source; from a state with a living node that satisfies
  the invariant there is a step, and it leads to a state that satisfies the invariant,
  with a smaller measure, a stack that has grown at its top or not at all, and a \<open>k\<close>
  that is not smaller.
\<close>

lemma elim_step_deterministic: "elim_step st st1 \<Longrightarrow> elim_step st st2 \<Longrightarrow> st1 = st2"
  by (simp add: elim_step_iff)

lemma elim_step_final: "es_alive st = {||} \<Longrightarrow> \<not> elim_step st st'"
  by (simp add: elim_step_iff)

lemma elim_step_progress:
  assumes "elim_inv orig st" and "es_alive st \<noteq> {||}" and "max_degree orig < usize_max"
  shows "\<exists>st'. elim_step st st'"
  using elim_round_step [OF assms] assms(2) by (metis elim_step.step)

lemma elim_step_inv:
  assumes "elim_inv orig st" and "max_degree orig < usize_max" and "elim_step st st'"
  shows "elim_inv orig st'" and "elim_measure st' < elim_measure st"
    and "\<exists>pre. es_stack st' = pre @ es_stack st" and "es_k st \<le> es_k st'"
proof -
  from assms(3) have ne: "es_alive st \<noteq> {||}" and round: "elim_round st = Inr st'"
    by (simp_all add: elim_step_iff)
  from elim_round_step [OF assms(1) ne assms(2)] round
  have inv: "elim_inv orig st' \<and> elim_measure st' < elim_measure st" by auto
  from assms(1) ne assms(2)
  have "(\<exists>pre. es_stack st' = pre @ es_stack st) \<and> es_k st \<le> es_k st'"
  proof (cases rule: elim_round_cases)
    case (Removed a st1)
    with round have "st1 = st'" by simp
    with Removed show ?thesis by simp
  next
    case (Raised m)
    with round have "st' = st\<lparr>es_k := m\<rparr>" by simp
    with Raised show ?thesis by simp
  qed
  with inv
  show "elim_inv orig st'" and "elim_measure st' < elim_measure st"
    and "\<exists>pre. es_stack st' = pre @ es_stack st" and "es_k st \<le> es_k st'"
    by simp_all
qed

text \<open>Runs: the stack only grows and \<open>k\<close> only rises along a run.\<close>

lemma elim_steps_inv:
  assumes "elim_step\<^sup>*\<^sup>* st st'" and "elim_inv orig st" and "max_degree orig < usize_max"
  shows "elim_inv orig st' \<and> (\<exists>pre. es_stack st' = pre @ es_stack st) \<and> es_k st \<le> es_k st'"
  using assms(1)
proof (induction rule: rtranclp_induct)
  case base
  with assms(2) show ?case by simp
next
  case (step st1 st2)
  from step.IH elim_step_inv [OF _ assms(3) step.hyps(2)] show ?case
    by (metis append.assoc le_trans)
qed

lemma elim_reach_steps: "elim_reach orig st \<longleftrightarrow> elim_step\<^sup>*\<^sup>* (elim_init orig) st"
proof
  show "elim_step\<^sup>*\<^sup>* (elim_init orig) st" if "elim_reach orig st"
    using that
    by (induction rule: elim_reach.induct) (auto intro: elim_step.step rtranclp.rtrancl_into_rtrancl)
  show "elim_reach orig st" if "elim_step\<^sup>*\<^sup>* (elim_init orig) st"
    using that
    by (induction rule: rtranclp_induct) (auto simp: elim_step_iff intro: elim_reach.intros)
qed

section \<open>Reachable states satisfy the invariant\<close>

text \<open>
  Every reachable state satisfies the invariant, and the loop ends in a reachable state.
\<close>

lemma elim_reach_inv:
  assumes "elim_reach orig st" and "max_degree orig < usize_max"
  shows "elim_inv orig st"
  using assms(1)
proof (induction rule: elim_reach.induct)
  case start
  show ?case by (rule elim_inv_init)
next
  case (round st st')
  from elim_round_step [OF round.IH round.hyps(2) assms(2)] round.hyps(3)
  show ?case by (metis Inr_inject)
qed

lemma elim_loop_reach:
  assumes "elim_reach orig st" and "max_degree orig < usize_max"
  shows "\<exists>st'. elim_loop st = Some (Inr st') \<and> es_alive st' = {||} \<and> elim_reach orig st'"
  using elim_loop_rule [OF elim_reach_inv [OF assms] assms(2), of "elim_reach orig"] assms(1)
  by (blast intro: elim_reach.round)

text \<open>
  The loop follows the steps: from a state that satisfies the invariant it returns the
  final state of the run that starts there. A run from a reachable state stays among
  the reachable states.
\<close>

lemma elim_loop_steps:
  assumes "elim_inv orig st" and "max_degree orig < usize_max"
  shows "\<exists>st'. elim_loop st = Some (Inr st') \<and> elim_inv orig st' \<and> es_alive st' = {||} \<and>
    elim_step\<^sup>*\<^sup>* st st'"
proof (rule elim_loop_rule [OF assms, where P = "elim_step\<^sup>*\<^sup>* st"])
  fix s s'
  assume "elim_step\<^sup>*\<^sup>* st s" and "es_alive s \<noteq> {||}" and "elim_round s = Inr s'"
  then show "elim_step\<^sup>*\<^sup>* st s'"
    by (auto intro: elim_step.step rtranclp.rtrancl_into_rtrancl)
qed simp

lemma elim_steps_reach: "elim_reach orig st \<Longrightarrow> elim_step\<^sup>*\<^sup>* st st' \<Longrightarrow> elim_reach orig st'"
  by (auto simp: elim_reach_steps)

text \<open>
  The stack and the living nodes divide the nodes of the graph among them, so their
  sizes add up to the number of nodes.
\<close>

lemma elim_inv_sizes:
  assumes "elim_inv orig st"
  shows "length (es_stack st) + bs_element_count (es_alive st) = length orig"
proof -
  let ?V = "{a. as_index a < length orig}"
  from assms have d: "distinct (es_stack st)" and sub: "set (es_stack st) \<subseteq> ?V"
    and alive: "fset (es_alive st) = ?V - set (es_stack st)"
    by (simp_all add: elim_inv_def)
  have V: "?V = NodeId ` {0..<length orig}" by (simp add: NodeId_as_index_image)
  then have fin: "finite ?V" and card: "card ?V = length orig"
    by (simp_all add: card_image inj_on_def)
  from d have "length (es_stack st) = card (set (es_stack st))" by (simp add: distinct_card)
  moreover from alive sub have "bs_element_count (es_alive st) = card ?V - card (set (es_stack st))"
    by (simp add: bs_element_count_card card_Diff_subset)
  moreover from sub fin have "card (set (es_stack st)) \<le> card ?V" by (rule card_mono [rotated])
  ultimately show ?thesis using card by simp
qed

text \<open>
  The loop with fuel: when it returns, the loop without fuel returns the same, and the
  measure of the state plus one is enough fuel.
\<close>

lemma elim_fuel_loop: "elim_fuel n st = Some r \<Longrightarrow> elim_loop st = Some r"
proof (induction n st rule: elim_fuel.induct)
  case (1 st)
  then show ?case by simp
next
  case (2 n st)
  then show ?case
    by (subst elim_loop.simps) (auto split: if_splits sum.splits)
qed

lemma elim_fuel_enough:
  assumes "elim_inv orig st" and "max_degree orig < usize_max" and "elim_measure st < n"
  shows "elim_fuel n st = elim_loop st"
  using assms(1,3)
proof (induction n arbitrary: st)
  case 0
  then show ?case by simp
next
  case (Suc n)
  show ?case
  proof (cases "es_alive st = {||}")
    case True
    then show ?thesis by (simp add: elim_loop_done)
  next
    case False
    from elim_round_step [OF Suc.prems(1) False assms(2)] obtain st1
      where st1: "elim_round st = Inr st1" "elim_inv orig st1"
        "elim_measure st1 < elim_measure st"
      by blast
    with Suc.prems(2) have "elim_fuel n st1 = elim_loop st1" by (intro Suc.IH) simp_all
    with st1(1) False show ?thesis by (simp add: elim_loop_round)
  qed
qed

lemma elim_measure_init: "elim_measure (elim_init orig) \<le> 2 * length orig + 1"
  by (simp add: elim_measure_def elim_init_def bs_element_count_card)

text \<open>
  The loop as a \<open>while\<close>: it satisfies the equation of \<open>elim_loop\<close>, each of the two
  returns what the other returns.
\<close>

lemma elim_while_Inl: "while_option elim_continue elim_body (Inl e) = Some (Inl e)"
  by (subst while_option_unfold) (simp add: elim_continue_def)

lemma elim_while_unfold:
  "elim_while st =
     (if bs_is_empty (es_alive st) then Some (Inr st)
      else case elim_round st of
        Inl e \<Rightarrow> Some (Inl e)
      | Inr st' \<Rightarrow> elim_while st')"
  unfolding elim_while_def
  by (subst while_option_unfold)
    (simp add: elim_continue_def elim_body_def elim_while_Inl split: sum.split)

lemma elim_loop_imp_while:
  assumes "elim_loop st = Some r"
  shows "elim_while st = Some r"
proof (rule elim_loop.raw_induct [where P = "\<lambda>st r. elim_while st = Some r", OF _ assms])
  fix loop st r
  assume IH: "\<And>x y. loop x = Some y \<Longrightarrow> elim_while x = Some y"
    and body: "(if bs_is_empty (es_alive st) then Some (Inr st)
      else case elim_round st of Inl e \<Rightarrow> Some (Inl e) | Inr st' \<Rightarrow> loop st') = Some r"
  show "elim_while st = Some r"
  proof (cases "es_alive st = {||}")
    case True
    with body show ?thesis by (subst elim_while_unfold) simp
  next
    case False
    show ?thesis
    proof (cases "elim_round st")
      case (Inl e)
      with False body have "r = Inl e" by simp
      with False Inl show ?thesis by (subst elim_while_unfold) simp
    next
      case (Inr st')
      with False body have "loop st' = Some r" by simp
      then have "elim_while st' = Some r" by (rule IH)
      with False Inr show ?thesis by (subst elim_while_unfold) simp
    qed
  qed
qed

lemma elim_while_imp_loop:
  assumes "elim_while st = Some r"
  shows "elim_loop st = Some r"
proof -
  let ?L = "\<lambda>r. case r of Inl e \<Rightarrow> Some (Inl e) | Inr s \<Rightarrow> elim_loop s"
  have step: "?L (elim_body r') = ?L r'" if "elim_continue r'" for r'
  proof (cases r')
    case (Inl e)
    with that show ?thesis by (simp add: elim_continue_def)
  next
    case (Inr s)
    with that have ne: "es_alive s \<noteq> {||}" by (simp add: elim_continue_def)
    show ?thesis
      unfolding Inr
      by (cases "elim_round s")
        (simp_all add: elim_body_def elim_loop_round [OF ne] elim_loop_panic [OF ne])
  qed
  have "?L r = ?L (Inr st)"
  proof (rule while_option_rule [where P = "\<lambda>r'. ?L r' = ?L (Inr st)",
        OF _ assms [unfolded elim_while_def]])
    fix r'
    assume "?L r' = ?L (Inr st)" and "elim_continue r'"
    then show "?L (elim_body r') = ?L (Inr st)" by (simp add: step)
  qed simp
  moreover from assms have "\<not> elim_continue r"
    unfolding elim_while_def by (rule while_option_stop)
  then have "?L r = Some r"
    by (cases r) (simp_all add: elim_continue_def elim_loop_done)
  ultimately show ?thesis by simp
qed

section \<open>Properties of the runs\<close>

text \<open>
  C14. The outer loop makes at most \<open>2 * n + 1\<close> rounds on a table of \<open>n\<close> nodes: with
  fuel for that many rounds and the final test, the bounded loop returns what the loop
  returns.
\<close>

theorem elim_fuel_bound:
  assumes "max_degree orig < usize_max"
  shows "elim_fuel (2 * length orig + 2) (elim_init orig) = elim_loop (elim_init orig)"
  using elim_inv_init assms
proof (rule elim_fuel_enough)
  show "elim_measure (elim_init orig) < 2 * length orig + 2"
    using elim_measure_init [of orig] by simp
qed

text \<open>
  The recursive loop and the \<open>while\<close> loop agree on every state: both return the same
  state, both end in the same panic, or neither ends.
\<close>

lemma elim_while_eq: "elim_while st = elim_loop st"
proof (cases "elim_while st")
  case None
  then show ?thesis using elim_loop_imp_while [of st] by (cases "elim_loop st") auto
next
  case (Some r)
  then show ?thesis by (simp add: elim_while_imp_loop)
qed

text \<open>
  C31. The invariant that the source states in its comment on the working graph holds in
  every state of the outer loop, for a graph whose neighbours are all nodes: a living
  node is connected to living nodes only, and so is the node on top of the stack, apart
  from itself.
\<close>

theorem elim_reach_alive_closed:
  assumes "elim_reach orig st" and "adj_bounded orig" and "max_degree orig < usize_max"
  shows "(\<forall>a \<in> fset (es_alive st). fset (es_graph st ! as_index a) \<subseteq> fset (es_alive st)) \<and>
    (\<forall>v rest. es_stack st = v # rest \<longrightarrow>
       fset (es_graph st ! as_index v) \<subseteq> insert v (fset (es_alive st)))"
proof -
  from elim_reach_inv [OF assms(1,3)] have inv: "elim_inv orig st" .
  then have alive: "fset (es_alive st) = {a. as_index a < length orig} - set (es_stack st)"
    and stack: "set (es_stack st) \<subseteq> {a. as_index a < length orig}"
    and w: "\<forall>a \<in> fset (es_alive st).
      fset (es_graph st ! as_index a) = fset (orig ! as_index a) - set (es_stack st)"
    and cert: "elim_cert orig (es_graph st) (es_k st) (es_stack st)"
    by (simp_all add: elim_inv_def)
  have bounded: "fset (orig ! as_index a) \<subseteq> {b. as_index b < length orig}"
    if "as_index a < length orig" for a
    using assms(2) that by (auto simp: adj_bounded_def)
  have "fset (es_graph st ! as_index a) \<subseteq> fset (es_alive st)" if "a \<in> fset (es_alive st)" for a
    using that w bounded [of a] unfolding alive by auto
  moreover have "fset (es_graph st ! as_index v) \<subseteq> insert v (fset (es_alive st))"
    if "es_stack st = v # rest" for v rest
    using cert stack bounded [of v] unfolding alive that by auto
  ultimately show ?thesis by blast
qed

text \<open>
  C35. Every living node is removed in the end: the run from a reachable state reaches a
  state in which the node is on the stack and no longer alive, and the node stays on
  the stack in every state the run reaches after that.
\<close>

theorem elim_eventually_removed:
  assumes "elim_reach orig st" and "max_degree orig < usize_max"
    and "a \<in> fset (es_alive st)"
  shows "\<exists>st'. elim_step\<^sup>*\<^sup>* st st' \<and> a \<in> set (es_stack st') \<and> a \<notin> fset (es_alive st') \<and>
    (\<forall>st''. elim_step\<^sup>*\<^sup>* st' st'' \<longrightarrow> a \<in> set (es_stack st''))"
proof -
  from assms(1,2) have inv: "elim_inv orig st" by (rule elim_reach_inv)
  with assms(3) have valid: "as_index a < length orig" by (auto simp: elim_inv_def)
  from elim_loop_steps [OF inv assms(2)] obtain st'
    where st': "elim_inv orig st'" "es_alive st' = {||}" "elim_step\<^sup>*\<^sup>* st st'"
    by blast
  from elim_inv_final(1) [OF st'(1,2)] valid have on: "a \<in> set (es_stack st')" by simp
  have "a \<in> set (es_stack st'')" if "elim_step\<^sup>*\<^sup>* st' st''" for st''
    using elim_steps_inv [OF that st'(1) assms(2)] on by auto
  with st' on show ?thesis by auto
qed

text \<open>
  C36. The values of type \<open>usize\<close> of the outer loop stay within the type, for a graph
  whose neighbours are all nodes and whose table is shorter than \<open>usize::MAX\<close>: in every
  reachable state \<open>k\<close> is at most \<open>usize::MAX\<close>, the working graph has the length of the
  table, the stack and the living nodes together have as many members as the table,
  and \<open>connected + 1\<close> does not overflow for any living node.
\<close>

theorem elim_reach_fits_usize:
  assumes "elim_reach orig st" and "adj_bounded orig" and "length orig < usize_max"
  shows "es_k st \<le> usize_max \<and> length (es_graph st) = length orig \<and>
    length (es_stack st) + bs_element_count (es_alive st) = length orig \<and>
    (\<forall>a \<in> fset (es_alive st). degree (es_graph st) a + 1 \<le> usize_max)"
proof -
  from assms(2,3) have small: "max_degree orig < usize_max"
    using adj_bounded_max_degree_le [of orig] by simp
  with assms(1) have inv: "elim_inv orig st" by (rule elim_reach_inv)
  then have "es_k st \<le> max_degree orig + 1" and "length (es_graph st) = length orig"
    by (simp_all add: elim_inv_def)
  moreover have "degree (es_graph st) a + 1 \<le> usize_max" if "a \<in> fset (es_alive st)" for a
    using elim_inv_degree_le [OF inv that] small by simp
  ultimately show ?thesis using small elim_inv_sizes [OF inv] by simp
qed

section \<open>The runs on the graph of the crate's test\<close>

lemma elim_round_simple_graph_1:
  "elim_round (elim_init (nodes simple_graph)) = Inr (elim_init (nodes simple_graph)\<lparr>es_k := 3\<rparr>)"
  by code_simp

theorem elim_fuel_bound_witness:
  "max_degree (nodes simple_graph) < usize_max \<and>
   elim_fuel (2 * length (nodes simple_graph) + 2) (elim_init (nodes simple_graph)) =
     elim_loop (elim_init (nodes simple_graph))"
  using simple_graph_degree_small elim_fuel_bound [OF simple_graph_degree_small]
  by (rule conjI)

lemma elim_round_simple_graph_2:
  "elim_round (elim_init (nodes simple_graph)\<lparr>es_k := 3\<rparr>) = Inr simple_graph_removed"
  unfolding simple_graph_removed_def by code_simp

lemma simple_graph_removed_reach: "elim_reach (nodes simple_graph) simple_graph_removed"
proof -
  have "elim_reach (nodes simple_graph) (elim_init (nodes simple_graph)\<lparr>es_k := 3\<rparr>)"
    using elim_reach.start simple_graph_alive elim_round_simple_graph_1
    by (rule elim_reach.round)
  moreover have "es_alive (elim_init (nodes simple_graph)\<lparr>es_k := 3\<rparr>) \<noteq> {||}"
    using simple_graph_alive by simp
  ultimately show ?thesis using elim_round_simple_graph_2 by (rule elim_reach.round)
qed

theorem elim_reach_alive_closed_witness:
  "elim_reach (nodes simple_graph) simple_graph_removed \<and>
   NodeId 2 \<in> fset (es_alive simple_graph_removed) \<and>
   fset (es_graph simple_graph_removed ! as_index (NodeId 2)) \<subseteq>
     fset (es_alive simple_graph_removed) \<and>
   es_stack simple_graph_removed = [NodeId 0] \<and>
   fset (es_graph simple_graph_removed ! as_index (NodeId 0)) \<subseteq>
     insert (NodeId 0) (fset (es_alive simple_graph_removed))"
proof -
  have "NodeId 2 \<in> fset (es_alive simple_graph_removed)"
    and "es_stack simple_graph_removed = [NodeId 0]"
    by (simp_all add: simple_graph_removed_def)
  with elim_reach_alive_closed [OF simple_graph_removed_reach
      graph_ok_adj_bounded [OF simple_graph_ok] simple_graph_degree_small]
    simple_graph_removed_reach
  show ?thesis by blast
qed

lemma simple_graph_start_alive: "NodeId 0 \<in> fset (es_alive (elim_init (nodes simple_graph)))"
  by (simp add: elim_init_def simple_graph_def)

theorem elim_eventually_removed_witness:
  "elim_reach (nodes simple_graph) (elim_init (nodes simple_graph)) \<and>
   (\<exists>st'. elim_step\<^sup>*\<^sup>* (elim_init (nodes simple_graph)) st' \<and> NodeId 0 \<in> set (es_stack st') \<and>
      NodeId 0 \<notin> fset (es_alive st'))"
  using elim_eventually_removed
    [OF elim_reach.start simple_graph_degree_small simple_graph_start_alive]
    elim_reach.start [of "nodes simple_graph"]
  by blast

theorem elim_reach_fits_usize_witness:
  "elim_reach (nodes simple_graph) (elim_init (nodes simple_graph)) \<and>
   adj_bounded (nodes simple_graph) \<and> length (nodes simple_graph) < usize_max \<and>
   es_k (elim_init (nodes simple_graph)) \<le> usize_max \<and>
   degree (es_graph (elim_init (nodes simple_graph))) (NodeId 0) + 1 \<le> usize_max"
  using elim_reach_fits_usize
    [OF elim_reach.start graph_ok_adj_bounded [OF simple_graph_ok] simple_graph_small]
    elim_reach.start [of "nodes simple_graph"] graph_ok_adj_bounded [OF simple_graph_ok]
    simple_graph_small simple_graph_start_alive
  by blast

end
