(* ===== verification/Usize.thy ===== *)
theory Usize
  imports Coloring "HOL-Library.Word"
begin

text \<open>
  The arithmetic of \<open>usize\<close> in \<open>Graph::minimal_coloring\<close> at its width.

  The variables \<open>k\<close>, \<open>min_k\<close> and \<open>connected\<close> of the elimination loop
  (\<open>src/lib.rs\<close>, lines 77 to 105) have type \<open>usize\<close>, and line 101 adds one to a
  degree. The other theories count in \<open>nat\<close>. This theory has the loop on 64-bit words,
  once for each way in which Rust compiles the addition:

  \<^item> \<open>Debug\<close>: the build checks the addition, and an overflow is the panic
    \<open>ArithmeticOverflow\<close>;
  \<^item> \<open>Release\<close>: the addition wraps around.

  \<open>scan64\<close>, \<open>eliminate64\<close>, \<open>elim_round64\<close>, \<open>elim_loop64\<close> and
  \<open>minimal_coloring64\<close> are the operations of the theories \<open>Elimination\<close> and
  \<open>Coloring\<close> with \<open>k\<close> and \<open>min_k\<close> of type \<open>64 word\<close>, the comparison \<open><\<close> of
  words (which is unsigned) and \<open>add_usize\<close> for the addition. \<open>abs_state\<close> reads a
  state of the loop on words as a state of the loop on \<open>nat\<close>, and \<open>map_result\<close>
  applies such a reading to the value of a computation that may panic. The source
  evaluates \<open>connected + 1\<close> twice, in the test and in the assignment; \<open>scan64\<close>
  evaluates it once, since both evaluations give the same value or the same panic.
  \<open>minimal_coloring64\<close> returns the record \<open>Coloring\<close> of theory \<open>Coloring\<close>, with
  \<open>k\<close> read as a number; the colours and the lengths stay in \<open>nat\<close>, as the crate
  does no arithmetic on them.

  The lemmas show that the loop on words refines the loop on \<open>nat\<close> in both profiles,
  on every graph of largest degree below \<open>usize::MAX\<close>: each round of the one is a
  round of the other under \<open>abs_state\<close>, so the addition never overflows and never
  wraps, and \<open>minimal_coloring64\<close> returns what \<open>minimal_coloring\<close> returns. What
  the other theories prove of \<open>minimal_coloring\<close> therefore holds of the compiled
  function. \<open>add_usize_max\<close> shows that the two profiles do differ at \<open>usize::MAX\<close>.
\<close>

section \<open>The loop on words\<close>

type_synonym usize = "64 word"

datatype profile = Debug | Release

fun add_usize :: "profile \<Rightarrow> usize \<Rightarrow> usize \<Rightarrow> usize result" where
  "add_usize Debug a b =
     (if unat a + unat b \<le> usize_max then Inr (a + b) else Inl ArithmeticOverflow)"
| "add_usize Release a b = Inr (a + b)"

definition count_usize :: "NodeId bitset \<Rightarrow> usize" where
  "count_usize s = of_nat (bs_element_count s)"

datatype scan_result64 = Found64 NodeId | NotFound64 usize

record elim_state64 =
  es64_k :: usize
  es64_stack :: "NodeId list"
  es64_graph :: "NodeId bitset list"
  es64_alive :: "NodeId bitset"

fun scan64 ::
  "profile \<Rightarrow> NodeId bitset list \<Rightarrow> usize \<Rightarrow> NodeId list \<Rightarrow> usize \<Rightarrow> scan_result64 result" where
  "scan64 p graph k [] min_k = Inr (NotFound64 min_k)"
| "scan64 p graph k (node # rest) min_k =
     bindr (tv_index graph (as_index node)) (\<lambda>adj.
       let connected = count_usize adj in
       if connected < k then Inr (Found64 node)
       else bindr (add_usize p connected 1) (\<lambda>next_k.
         if next_k < min_k then scan64 p graph k rest next_k
         else scan64 p graph k rest min_k))"

definition eliminate64 :: "NodeId \<Rightarrow> elim_state64 \<Rightarrow> elim_state64 result" where
  "eliminate64 node st =
     (let alive' = bs_remove node (es64_alive st);
          stack' = node # es64_stack st
      in bindr (for_each (bs_iter alive') (\<lambda>other. tv_modify (as_index other) (bs_remove node))
                  (es64_graph st))
           (\<lambda>graph'. Inr (st\<lparr>es64_stack := stack', es64_graph := graph', es64_alive := alive'\<rparr>)))"

definition elim_round64 :: "profile \<Rightarrow> elim_state64 \<Rightarrow> elim_state64 result" where
  "elim_round64 p st =
     bindr (scan64 p (es64_graph st) (es64_k st) (bs_iter (es64_alive st)) (of_nat usize_max))
       (\<lambda>r. case r of
          Found64 node \<Rightarrow> eliminate64 node st
        | NotFound64 min_k \<Rightarrow> Inr (st\<lparr>es64_k := min_k\<rparr>))"

partial_function (option) elim_loop64 ::
  "profile \<Rightarrow> elim_state64 \<Rightarrow> elim_state64 result option" where
  "elim_loop64 p st =
     (if bs_is_empty (es64_alive st) then Some (Inr st)
      else case elim_round64 p st of
        Inl e \<Rightarrow> Some (Inl e)
      | Inr st' \<Rightarrow> elim_loop64 p st')"

declare elim_loop64.simps [code]

definition elim_init64 :: "NodeId bitset list \<Rightarrow> elim_state64" where
  "elim_init64 ns =
     \<lparr>es64_k = 0, es64_stack = [], es64_graph = ns, es64_alive = bs_collect (index_iter ns)\<rparr>"

definition minimal_coloring64 :: "profile \<Rightarrow> Graph \<Rightarrow> Coloring result option" where
  "minimal_coloring64 p g =
     (case check_invariants g of
        Inl e \<Rightarrow> Some (Inl e)
      | Inr _ \<Rightarrow>
         (case elim_loop64 p (elim_init64 (nodes g)) of
            None \<Rightarrow> None
          | Some (Inl e) \<Rightarrow> Some (Inl e)
          | Some (Inr st) \<Rightarrow>
              Some (bindr (assign_colors (unat (es64_k st)) (es64_graph st) (es64_stack st)
                             (replicate (length (es64_graph st)) usize_max))
                      (\<lambda>colors. Inr \<lparr>col_k = unat (es64_k st), col_nodes = colors\<rparr>))))"

text \<open>Reading the words as numbers.\<close>

fun map_result :: "('a \<Rightarrow> 'b) \<Rightarrow> 'a result \<Rightarrow> 'b result" where
  "map_result f (Inl e) = Inl e"
| "map_result f (Inr x) = Inr (f x)"

fun abs_scan :: "scan_result64 \<Rightarrow> scan_result" where
  "abs_scan (Found64 a) = Found a"
| "abs_scan (NotFound64 m) = NotFound (unat m)"

definition abs_state :: "elim_state64 \<Rightarrow> elim_state" where
  "abs_state st =
     \<lparr>es_k = unat (es64_k st), es_stack = es64_stack st, es_graph = es64_graph st,
      es_alive = es64_alive st\<rparr>"

section \<open>Words that hold counts\<close>

lemma unat_usize_max [simp]: "unat (of_nat usize_max :: usize) = usize_max"
  by (simp add: unat_of_nat usize_max_def)

lemma unat_count_usize:
  "bs_element_count s \<le> usize_max \<Longrightarrow> unat (count_usize s) = bs_element_count s"
  by (simp add: count_usize_def unat_of_nat usize_max_def)

lemma add_usize_one:
  assumes "unat a < usize_max"
  shows "add_usize p a 1 = Inr (a + 1)" and "unat (a + 1) = unat a + 1"
proof -
  from assms have "unat a + unat (1 :: usize) < 2 ^ LENGTH(64)"
    by (simp add: usize_max_def)
  then show "unat (a + 1) = unat a + 1"
    by (simp add: unat_add_lem [THEN iffD1])
  from assms show "add_usize p a 1 = Inr (a + 1)" by (cases p) simp_all
qed

lemma add_usize_max:
  "add_usize Debug (of_nat usize_max) 1 = Inl ArithmeticOverflow"
  "add_usize Release (of_nat usize_max) 1 = Inr 0"
  by (simp_all add: usize_max_def)

lemma map_result_bindr:
  "map_result f (bindr m g) = bindr m (\<lambda>x. map_result f (g x))"
  by (cases m) simp_all

lemma map_result_eq_Inr_iff: "map_result f r = Inr y \<longleftrightarrow> (\<exists>x. r = Inr x \<and> f x = y)"
  by (cases r) auto

lemma abs_state_simps [simp]:
  "es_k (abs_state st) = unat (es64_k st)"
  "es_stack (abs_state st) = es64_stack st"
  "es_graph (abs_state st) = es64_graph st"
  "es_alive (abs_state st) = es64_alive st"
  by (simp_all add: abs_state_def)

lemma abs_state_init [simp]: "abs_state (elim_init64 ns) = elim_init ns"
  by (simp add: abs_state_def elim_init64_def elim_init_def)

section \<open>Each operation on words is the operation on numbers\<close>

lemma scan64_abs:
  assumes "\<forall>a \<in> set xs. as_index a < length w \<and> degree w a < usize_max"
  shows "map_result abs_scan (scan64 p w k xs m) = scan w (unat k) xs (unat m)"
  using assms
proof (induction xs arbitrary: m)
  case Nil
  show ?case by simp
next
  case (Cons x xs)
  let ?c = "count_usize (w ! as_index x)"
  from Cons.prems have x: "as_index x < length w" and small: "degree w x < usize_max"
    by simp_all
  from small have c: "unat ?c = degree w x"
    by (simp add: unat_count_usize degree_def)
  with small have "unat ?c < usize_max" by simp
  note add = add_usize_one(1) [OF this, of p] add_usize_one(2) [OF this]
  from Cons.prems have IH: "map_result abs_scan (scan64 p w k xs m') = scan w (unat k) xs (unat m')"
    for m'
    by (intro Cons.IH) simp
  from x c add IH show ?case
    by (simp add: tv_index_Inr Let_def word_less_nat_alt flip: degree_def)
qed

lemma eliminate64_abs: "map_result abs_state (eliminate64 node st) = eliminate node (abs_state st)"
  by (simp add: eliminate64_def eliminate_def Let_def map_result_bindr abs_state_def)

lemma elim_round64_abs:
  assumes "elim_inv orig (abs_state st)" and "max_degree orig < usize_max"
  shows "map_result abs_state (elim_round64 p st) = elim_round (abs_state st)"
proof -
  let ?xs = "bs_iter (es64_alive st)"
  have "as_index a < length (es64_graph st) \<and> degree (es64_graph st) a < usize_max"
    if "a \<in> set ?xs" for a
    using that elim_inv_alive_valid [OF assms(1), of a] elim_inv_degree_le [OF assms(1), of a]
      assms(2)
    by simp
  then have scan: "map_result abs_scan (scan64 p (es64_graph st) (es64_k st) ?xs m) =
      scan (es64_graph st) (unat (es64_k st)) ?xs (unat m)" for m
    by (intro scan64_abs) simp
  show ?thesis
  proof (cases "scan64 p (es64_graph st) (es64_k st) ?xs (of_nat usize_max)")
    case (Inl e)
    with scan [of "of_nat usize_max"]
    have "scan (es64_graph st) (unat (es64_k st)) ?xs usize_max = Inl e" by simp
    with Inl show ?thesis by (simp add: elim_round64_def elim_round_def)
  next
    case (Inr r)
    with scan [of "of_nat usize_max"]
    have "scan (es64_graph st) (unat (es64_k st)) ?xs usize_max = Inr (abs_scan r)" by simp
    with Inr show ?thesis
      by (cases r) (simp_all add: elim_round64_def elim_round_def eliminate64_abs abs_state_def)
  qed
qed

text \<open>
  The loop on words, from a state whose reading satisfies the invariant, returns a state
  whose reading is what the loop on numbers returns.
\<close>

lemma elim_loop64_abs:
  assumes "elim_inv orig (abs_state st)" and small: "max_degree orig < usize_max"
  shows "map_option (map_result abs_state) (elim_loop64 p st) = elim_loop (abs_state st)"
  using assms(1)
proof (induction "elim_measure (abs_state st)" arbitrary: st rule: less_induct)
  case less
  show ?case
  proof (cases "es64_alive st = {||}")
    case True
    then show ?thesis by (subst elim_loop64.simps) (simp add: elim_loop_done)
  next
    case False
    then have ne: "es_alive (abs_state st) \<noteq> {||}" by simp
    from elim_round_step [OF less.prems ne small] obtain st1
      where st1: "elim_round (abs_state st) = Inr st1" "elim_inv orig st1"
        "elim_measure st1 < elim_measure (abs_state st)"
      by blast
    from st1(1) elim_round64_abs [OF less.prems small, of p] obtain s1
      where s1: "elim_round64 p st = Inr s1" "abs_state s1 = st1"
      by (auto simp: map_result_eq_Inr_iff)
    from False s1(1) have "elim_loop64 p st = elim_loop64 p s1"
      by (subst elim_loop64.simps) simp
    moreover from ne st1(1) have "elim_loop (abs_state st) = elim_loop st1"
      by (rule elim_loop_round)
    moreover from st1 s1(2) have "map_option (map_result abs_state) (elim_loop64 p s1) =
        elim_loop (abs_state s1)"
      by (intro less.hyps) simp_all
    ultimately show ?thesis using s1(2) by simp
  qed
qed

section \<open>The compiled function computes what the model computes\<close>

text \<open>
  C39. The elimination loop on 64-bit words refines the loop on natural numbers, in the
  build that checks the addition and in the build where it wraps around: on a table of
  largest degree below \<open>usize::MAX\<close> it returns, and reading \<open>k\<close> of its final state as
  a number gives the final state of the loop on numbers.
\<close>

theorem elim_loop64_refines:
  assumes "max_degree orig < usize_max"
  shows "map_option (map_result abs_state) (elim_loop64 p (elim_init64 orig)) =
    elim_loop (elim_init orig)"
  using elim_loop64_abs [of orig "elim_init64 orig" p] assms
  by (simp add: elim_inv_init)

text \<open>
  C40. On a graph with fewer than \<open>usize::MAX\<close> nodes, \<open>minimal_coloring\<close> with
  \<open>usize\<close> arithmetic on 64-bit words returns what the model on natural numbers
  returns, in both build profiles: no addition overflows and none wraps around.
\<close>

theorem minimal_coloring64_eq:
  assumes "length (nodes g) < usize_max"
  shows "minimal_coloring64 p g = minimal_coloring g"
proof (cases "graph_ok g")
  case False
  then show ?thesis
    by (simp add: minimal_coloring64_def minimal_coloring_def check_invariants_decides)
next
  case True
  then have "adj_bounded (nodes g)" by (rule graph_ok_adj_bounded)
  with assms have small: "max_degree (nodes g) < usize_max"
    using adj_bounded_max_degree_le [of "nodes g"] by simp
  then obtain st where st: "elim_loop (elim_init (nodes g)) = Some (Inr st)"
    by (rule elimination_returns)
  with elim_loop64_abs [of "nodes g" "elim_init64 (nodes g)" p] small
  obtain s where s: "elim_loop64 p (elim_init64 (nodes g)) = Some (Inr s)" "abs_state s = st"
    by (auto simp: elim_inv_init map_result_eq_Inr_iff)
  from s(2) have "es_k st = unat (es64_k s)" "es_graph st = es64_graph s"
    "es_stack st = es64_stack s"
    by auto
  with True st s(1) show ?thesis
    by (simp add: minimal_coloring64_def minimal_coloring_def check_invariants_decides)
qed

section \<open>The theorems on the graph of the crate's test\<close>

theorem elim_loop64_refines_witness:
  "max_degree (nodes simple_graph) < usize_max \<and>
   map_option (map_result abs_state) (elim_loop64 Debug (elim_init64 (nodes simple_graph))) =
     elim_loop (elim_init (nodes simple_graph))"
  using simple_graph_degree_small elim_loop64_refines [OF simple_graph_degree_small]
  by (rule conjI)

theorem minimal_coloring64_eq_witness:
  "length (nodes simple_graph) < usize_max \<and>
   minimal_coloring64 Release simple_graph = Some (Inr \<lparr>col_k = 3, col_nodes = [2, 2, 1, 0]\<rparr>)"
  using simple_graph_small minimal_coloring64_eq [OF simple_graph_small, of Release]
    minimal_coloring_simple_graph
  by simp

end
