(* ===== verification/Unwind.thy ===== *)
theory Unwind
  imports Graph
begin

text \<open>
  What a panic leaves behind in the graph.

  Theory \<open>Graph\<close> gives a call that panics the value \<open>Inl\<close> of the panic and nothing
  else. The methods \<open>add_edge\<close> and \<open>remove_edge\<close> (\<open>src/lib.rs\<close>, lines 58 to 69)
  take \<open>&mut self\<close> and run two statements on it, each of which can panic, so a caller
  that catches the unwinding, or the destructor of a value that refers to the graph,
  sees the graph as the first statement left it. This theory keeps that state.

  \<^item> A statement on a store \<open>'s\<close> is a function \<open>'s \<Rightarrow> panic option \<times> 's\<close>: the flag
    says whether the statement has panicked, the second component is the store
    afterwards. \<open>seq\<close> runs a second statement unless the first has panicked,
    \<open>modify_at i f\<close> is the statement \<open>v[i].f()\<close> on a vector, and \<open>outcome\<close>
    forgets the store after a panic.
  \<^item> \<open>add_edge_stmt\<close>, \<open>remove_edge_stmt\<close>, \<open>apply_op_stmt\<close> and \<open>run_ops_stmt\<close> are
    the methods and their sequences as statements on the graph.

  The lemmas: the outcome of each statement is the value that theory \<open>Graph\<close> gives
  to the call (\<open>apply_op_stmt_outcome\<close>, \<open>run_ops_stmt_outcome\<close>); a sequence of
  calls that panics has run a first part without a panic and has stopped in the next
  call (\<open>run_ops_stmt_decomp\<close>); what each statement
  leaves, on every branch (\<open>add_edge_stmt_eq\<close>, \<open>remove_edge_stmt_eq\<close>); a panic of
  \<open>remove_edge\<close> leaves a graph that passes the check as it was, and a panic of
  \<open>add_edge\<close> leaves it as it was or with one half of the edge, in which case it no
  longer passes the check.
\<close>

section \<open>Statements\<close>

type_synonym 's stmt = "'s \<Rightarrow> panic option \<times> 's"

definition seq :: "'s stmt \<Rightarrow> 's stmt \<Rightarrow> 's stmt" where
  "seq p q s = (case p s of (None, s') \<Rightarrow> q s' | (Some e, s') \<Rightarrow> (Some e, s'))"

definition modify_at :: "nat \<Rightarrow> ('a \<Rightarrow> 'a) \<Rightarrow> 'a list stmt" where
  "modify_at i f v =
     (if i < length v then (None, v[i := f (v ! i)]) else (Some IndexOutOfBounds, v))"

definition outcome :: "panic option \<times> 's \<Rightarrow> 's result" where
  "outcome r = (case r of (None, s) \<Rightarrow> Inr s | (Some e, s) \<Rightarrow> Inl e)"

definition on_nodes :: "NodeId bitset list stmt \<Rightarrow> Graph stmt" where
  "on_nodes p g = (case p (nodes g) of (r, ns) \<Rightarrow> (r, g\<lparr>nodes := ns\<rparr>))"

section \<open>The methods as statements\<close>

definition add_edge_stmt :: "NodeId \<Rightarrow> NodeId \<Rightarrow> Graph stmt" where
  "add_edge_stmt a b g =
     (if \<not> eq_NodeId a b
      then on_nodes (seq (modify_at (as_index a) (bs_add b))
                         (modify_at (as_index b) (bs_add a))) g
      else (None, g))"

definition remove_edge_stmt :: "NodeId \<Rightarrow> NodeId \<Rightarrow> Graph stmt" where
  "remove_edge_stmt a b g =
     on_nodes (seq (modify_at (as_index a) (bs_remove b))
                   (modify_at (as_index b) (bs_remove a))) g"

fun apply_op_stmt :: "graph_op \<Rightarrow> Graph stmt" where
  "apply_op_stmt AddNode g = (None, snd (add_node g))"
| "apply_op_stmt (AddEdge a b) g = add_edge_stmt a b g"
| "apply_op_stmt (RemoveEdge a b) g = remove_edge_stmt a b g"

fun run_ops_stmt :: "graph_op list \<Rightarrow> Graph stmt" where
  "run_ops_stmt [] g = (None, g)"
| "run_ops_stmt (op # ops) g = seq (apply_op_stmt op) (run_ops_stmt ops) g"

section \<open>Outcomes\<close>

lemma outcome_simps [simp]:
  "outcome (None, s) = Inr s"
  "outcome (Some e, s) = Inl e"
  by (simp_all add: outcome_def)

lemma outcome_eq_Inl_iff: "outcome r = Inl e \<longleftrightarrow> fst r = Some e"
  by (cases r; cases "fst r") auto

lemma outcome_modify_at: "outcome (modify_at i f v) = tv_modify i f v"
  by (simp add: modify_at_def tv_modify_def)

lemma outcome_seq: "outcome (seq p q s) = bindr (outcome (p s)) (\<lambda>s'. outcome (q s'))"
  by (cases "p s"; cases "fst (p s)") (auto simp: seq_def)

lemma outcome_on_nodes:
  "outcome (on_nodes p g) = bindr (outcome (p (nodes g))) (\<lambda>ns. Inr (g\<lparr>nodes := ns\<rparr>))"
  by (cases "p (nodes g)"; cases "fst (p (nodes g))") (auto simp: on_nodes_def)

lemmas outcome_unfold = outcome_on_nodes outcome_seq outcome_modify_at bindr_assoc

lemma add_edge_stmt_outcome: "outcome (add_edge_stmt a b g) = add_edge a b g"
  by (simp add: add_edge_stmt_def add_edge_def outcome_unfold)

lemma remove_edge_stmt_outcome: "outcome (remove_edge_stmt a b g) = remove_edge a b g"
  by (simp add: remove_edge_stmt_def remove_edge_def outcome_unfold)

lemma apply_op_stmt_outcome: "outcome (apply_op_stmt op g) = apply_op op g"
  by (cases op) (simp_all add: add_edge_stmt_outcome remove_edge_stmt_outcome)

lemma run_ops_stmt_outcome: "outcome (run_ops_stmt ops g) = run_ops ops g"
  unfolding run_ops_def
  by (induction ops arbitrary: g) (simp_all add: outcome_seq apply_op_stmt_outcome)

text \<open>
  A sequence of calls either runs to its end, or it runs a first part without a
  panic and stops in the call after it, with the graph as that call has left it.
\<close>

lemma run_ops_stmt_decomp:
  assumes "run_ops_stmt ops g = (r, g')"
  shows "(r = None \<and> run_ops ops g = Inr g') \<or>
    (\<exists>e pre op post g1. r = Some e \<and> ops = pre @ op # post \<and> run_ops pre g = Inr g1 \<and>
       apply_op_stmt op g1 = (Some e, g'))"
  using assms
proof (induction ops arbitrary: g)
  case Nil
  then show ?case by (simp add: run_ops_def)
next
  case (Cons op ops)
  obtain r1 g1 where first: "apply_op_stmt op g = (r1, g1)" by (cases "apply_op_stmt op g")
  show ?case
  proof (cases r1)
    case None
    with first have call: "apply_op op g = Inr g1"
      using apply_op_stmt_outcome [of op g] by simp
    from None first Cons.prems have "run_ops_stmt ops g1 = (r, g')" by (simp add: seq_def)
    from Cons.IH [OF this] show ?thesis
    proof (elim disjE exE conjE)
      assume "r = None" "run_ops ops g1 = Inr g'"
      with call show ?thesis by (simp add: run_ops_def)
    next
      fix e pre op' post g2
      assume "r = Some e" "ops = pre @ op' # post" "run_ops pre g1 = Inr g2"
        "apply_op_stmt op' g2 = (Some e, g')"
      with call have "r = Some e \<and> op # ops = (op # pre) @ op' # post \<and>
          run_ops (op # pre) g = Inr g2 \<and> apply_op_stmt op' g2 = (Some e, g')"
        by (simp add: run_ops_def)
      then show ?thesis by blast
    qed
  next
    case (Some e)
    with first Cons.prems have "r = Some e" "g' = g1" by (simp_all add: seq_def)
    with first Some have "r = Some e \<and> op # ops = [] @ op # ops \<and> run_ops [] g = Inr g \<and>
        apply_op_stmt op g = (Some e, g')"
      by (simp add: run_ops_def)
    then show ?thesis by blast
  qed
qed

section \<open>What each statement leaves\<close>

lemma add_edge_stmt_eq:
  "add_edge_stmt a b g =
     (if a = b then (None, g)
      else if \<not> valid_node g a then (Some IndexOutOfBounds, g)
      else if \<not> valid_node g b
        then (Some IndexOutOfBounds,
              g\<lparr>nodes := (nodes g)[as_index a := bs_add b (nodes g ! as_index a)]\<rparr>)
      else (None, g\<lparr>nodes := (nodes g)
              [as_index a := bs_add b (nodes g ! as_index a),
               as_index b := bs_add a (nodes g ! as_index b)]\<rparr>))"
  by (simp add: add_edge_stmt_def on_nodes_def seq_def modify_at_def valid_node_def)

lemma remove_edge_stmt_eq:
  "remove_edge_stmt a b g =
     (if \<not> valid_node g a then (Some IndexOutOfBounds, g)
      else if \<not> valid_node g b
        then (Some IndexOutOfBounds,
              g\<lparr>nodes := (nodes g)[as_index a := bs_remove b (nodes g ! as_index a)]\<rparr>)
      else (None, g\<lparr>nodes := (nodes g)
              [as_index a := bs_remove b (nodes g ! as_index a),
               as_index b := bs_remove a ((nodes g)
                 [as_index a := bs_remove b (nodes g ! as_index a)] ! as_index b)]\<rparr>))"
  by (simp add: remove_edge_stmt_def on_nodes_def seq_def modify_at_def valid_node_def)

text \<open>The graph with one half of an edge to a handle that is not a node.\<close>

lemma half_edge_not_ok:
  assumes "valid_node g a" and "\<not> valid_node g b"
  defines "g' \<equiv> g\<lparr>nodes := (nodes g)[as_index a := bs_add b (nodes g ! as_index a)]\<rparr>"
  shows "neighbours g' a = insert b (neighbours g a)" and "\<not> valid_node g' b"
    and "\<not> graph_ok g'"
proof -
  from assms(1,2) show nb: "neighbours g' a = insert b (neighbours g a)"
    and b: "\<not> valid_node g' b"
    by (simp_all add: g'_def neighbours_def valid_node_def)
  then show "\<not> graph_ok g'" by (auto simp: graph_ok_def)
qed

lemma remove_edge_stmt_panic:
  assumes "graph_ok g" and "remove_edge_stmt a b g = (Some e, g')"
  shows "g' = g"
proof (cases "valid_node g a \<and> \<not> valid_node g b")
  case True
  with assms(1) have "b \<notin> neighbours g a" by (auto simp: graph_ok_def)
  with True have "bs_remove b (nodes g ! as_index a) = nodes g ! as_index a"
    by (simp add: neighbours_valid bs_remove_absent)
  with True assms(2) show ?thesis by (simp add: remove_edge_stmt_eq)
next
  case False
  with assms(2) show ?thesis by (auto simp: remove_edge_stmt_eq split: if_splits)
qed

text \<open>
  The two ways in which a call of the interface panics on a graph that passes the
  check: \<open>add_edge\<close> with a first handle that is a node and a second that is none,
  which leaves one half of the edge, and every other panic, which leaves the graph
  as it was.
\<close>

lemma apply_op_stmt_panic_cases:
  assumes "graph_ok g" and "apply_op_stmt op g = (Some e, g')"
  obtains (Half) a b where "op = AddEdge a b" and "valid_node g a" and "\<not> valid_node g b"
      and "g' = g\<lparr>nodes := (nodes g)[as_index a := bs_add b (nodes g ! as_index a)]\<rparr>"
      and "e = IndexOutOfBounds"
  | (Same) "g' = g" and "e = IndexOutOfBounds"
      and "\<And>a b. op = AddEdge a b \<Longrightarrow> \<not> valid_node g a"
proof (cases op)
  case AddNode
  with assms(2) show thesis by simp
next
  case (AddEdge a b)
  with assms(2) have stmt: "add_edge_stmt a b g = (Some e, g')" by simp
  show thesis
  proof (cases "valid_node g a")
    case True
    with stmt AddEdge show thesis
      by (intro Half [of a b]) (auto simp: add_edge_stmt_eq split: if_splits)
  next
    case False
    with stmt AddEdge show thesis
      by (intro Same) (auto simp: add_edge_stmt_eq split: if_splits)
  qed
next
  case (RemoveEdge a b)
  with assms(2) have stmt: "remove_edge_stmt a b g = (Some e, g')" by simp
  then have "e = IndexOutOfBounds" by (auto simp: remove_edge_stmt_eq split: if_splits)
  with remove_edge_stmt_panic [OF assms(1) stmt] RemoveEdge show thesis
    by (intro Same) simp_all
qed

lemma apply_op_stmt_panic_length:
  assumes "graph_ok g" and "apply_op_stmt op g = (Some e, g')"
  shows "length (nodes g') = length (nodes g)"
  using assms by (cases rule: apply_op_stmt_panic_cases) simp_all

section \<open>The state after a panic\<close>

text \<open>
  C26. The graph that a panicking call leaves behind. On a graph that passes the
  check, a call of the interface panics only with an index out of bounds. When the
  call is \<open>add_edge a b\<close> with \<open>a\<close> a node (and then \<open>b\<close> is none), it leaves \<open>b\<close>
  among the neighbours of \<open>a\<close>, and the graph no longer passes \<open>check_invariants\<close>;
  every other panicking call leaves the graph as it was.
\<close>

theorem apply_op_stmt_panic:
  assumes "graph_ok g" and "apply_op_stmt op g = (Some e, g')"
  shows "e = IndexOutOfBounds \<and>
    (case op of
       AddEdge a b \<Rightarrow>
         if valid_node g a
         then neighbours g' a = insert b (neighbours g a) \<and> \<not> valid_node g' b \<and>
           check_invariants g' = Inl AssertionFailed
         else g' = g
     | _ \<Rightarrow> g' = g)"
  using assms
proof (cases rule: apply_op_stmt_panic_cases)
  case (Half a b)
  with half_edge_not_ok [of g a b] show ?thesis
    by (simp add: check_invariants_decides)
next
  case Same
  then show ?thesis by (cases op) auto
qed

section \<open>The theorem on the graph of the crate's test\<close>

theorem apply_op_stmt_panic_witness:
  "graph_ok simple_graph \<and>
   apply_op_stmt (AddEdge (NodeId 0) (NodeId 7)) simple_graph =
     (Some IndexOutOfBounds, \<lparr>nodes =
       [{|NodeId 2, NodeId 3, NodeId 7|}, {|NodeId 2, NodeId 3|},
        {|NodeId 0, NodeId 1, NodeId 3|}, {|NodeId 0, NodeId 1, NodeId 2|}]\<rparr>) \<and>
   check_invariants \<lparr>nodes =
       [{|NodeId 2, NodeId 3, NodeId 7|}, {|NodeId 2, NodeId 3|},
        {|NodeId 0, NodeId 1, NodeId 3|}, {|NodeId 0, NodeId 1, NodeId 2|}]\<rparr> =
     Inl AssertionFailed"
proof -
  let ?g' = "\<lparr>nodes =
       [{|NodeId 2, NodeId 3, NodeId 7|}, {|NodeId 2, NodeId 3|},
        {|NodeId 0, NodeId 1, NodeId 3|}, {|NodeId 0, NodeId 1, NodeId 2|}]\<rparr>"
  have stmt: "apply_op_stmt (AddEdge (NodeId 0) (NodeId 7)) simple_graph =
      (Some IndexOutOfBounds, ?g')"
    by code_simp
  have "valid_node simple_graph (NodeId 0)"
    by (simp add: valid_node_def simple_graph_def)
  with apply_op_stmt_panic [OF simple_graph_ok stmt] simple_graph_ok stmt
  show ?thesis by simp
qed

end
