(* ===== verification/Spec2Isabelle.thy ===== *)
theory Spec2Isabelle
  imports Families Runs Usize Unwind
begin

text \<open>
  \<^bold>\<open>A verification library for the graph-colouring crate \<open>graphc\<close>.\<close>

  The crate is one file, \<open>src/lib.rs\<close>. It has two parts: the data structure
  \<open>Graph\<close> (an arena of adjacency bit sets indexed by \<open>NodeId\<close>, with \<open>new\<close>,
  \<open>add_node\<close>, \<open>add_edge\<close>, \<open>remove_edge\<close> and \<open>check_invariants\<close>) and the
  colouring engine \<open>Graph::minimal_coloring\<close>, which checks the invariants, clones the
  adjacency data, eliminates the nodes in a smallest-last order while raising a bound
  \<open>k\<close>, and then colours the nodes greedily in the reverse order. Both rest on the
  external crate \<open>tindex\<close> (\<open>TBitSet\<close>, \<open>TVec\<close>).

  \<^bold>\<open>Theories.\<close>
  \<^item> \<open>Prelude\<close>: panics as values (\<open>panic\<close>, \<open>result\<close>, \<open>bindr\<close>), a \<open>for\<close> statement
    with a panicking body (\<open>for_each\<close>), \<open>usize_max\<close>, the shared collections of facts
    and generic list lemmas.
  \<^item> \<open>TIndex\<close>: the interface of \<open>tindex\<close> as the crate uses it. \<open>TBitSet\<close> is a
    finite set (\<open>fset\<close>), iterated in ascending order; \<open>TVec\<close> is a list whose
    indexing panics past the end.
  \<^item> \<open>Graph\<close> (\<open>src/lib.rs\<close>, lines 3 to 69): \<open>NodeId\<close> (a datatype over \<open>nat\<close> with
    its derived comparisons \<open>eq_NodeId\<close>, \<open>cmp_NodeId\<close>, \<open>partial_cmp_NodeId\<close> and
    the \<open>linorder\<close> instance that they define), the record \<open>Graph\<close>, its five
    operations, the invariant \<open>graph_inv\<close>, the interface as a datatype of operations
    (\<open>graph_op\<close>, \<open>apply_op\<close>, \<open>run_ops\<close>, \<open>reachable\<close>), and the abstract graph
    (\<open>agraph\<close>, \<open>abs_graph\<close>) that the structure implements.
  \<^item> \<open>Unwind\<close> (lines 58 to 69): \<open>add_edge\<close> and \<open>remove_edge\<close> as statements on the
    graph that return a panic flag and the graph as the call leaves it
    (\<open>add_edge_stmt\<close>, \<open>remove_edge_stmt\<close>, \<open>apply_op_stmt\<close>), and sequences of
    calls that stop at the first panic (\<open>run_ops_stmt\<close>).
  \<^item> \<open>Elimination\<close> (lines 77 to 105): the first phase of \<open>minimal_coloring\<close>. The
    local variables are the record \<open>elim_state\<close>; \<open>scan\<close>, \<open>eliminate\<close> and
    \<open>elim_round\<close> are the inner loop, the removal of a node and one round of the outer
    loop; \<open>elim_loop\<close> is the outer loop.
  \<^item> \<open>Runs\<close> (lines 89 to 105): the outer loop as a transition system. \<open>elim_step\<close> is
    one round as a relation between states, its closure \<open>elim_step\<^sup>*\<^sup>*\<close> a run,
    \<open>elim_reach\<close> the states on the runs from the initial state; \<open>elim_fuel\<close> and
    \<open>elim_while\<close> are the loop with a bound on its rounds and the loop as a
    \<open>while\<close>.
  \<^item> \<open>Greedy\<close> (lines 107 to 116): the second phase; \<open>color_node\<close> is one step of the
    \<open>while let\<close> loop and \<open>assign_colors\<close> the loop.
  \<^item> \<open>Coloring\<close> (lines 71 to 128): the record \<open>Coloring\<close> and \<open>minimal_coloring\<close>,
    the composition of the check and the two phases.
  \<^item> \<open>Usize\<close> (lines 77 to 119): the same function with \<open>k\<close>, \<open>min_k\<close> and
    \<open>connected\<close> as 64-bit words (\<open>scan64\<close>, \<open>elim_round64\<close>, \<open>elim_loop64\<close>,
    \<open>minimal_coloring64\<close>), for the build that checks the addition \<open>connected + 1\<close>
    and for the build in which it wraps around (\<open>profile\<close>, \<open>add_usize\<close>).
  \<^item> \<open>Families\<close>: the graphs on which the result of \<open>minimal_coloring\<close> is known in
    closed form: \<open>edgeless\<close>, \<open>complete_graph\<close>, the cycles \<open>cycle_graph\<close> (with
    \<open>ring_succ\<close> and \<open>ring_pred\<close>, the two neighbours of a node on the ring),
    \<open>cycle4\<close>, the cycle on four nodes written out, the stars \<open>star_graph\<close> and the
    paths \<open>path_graph\<close>. They are inputs of the function, not code of the crate.
  \<^item> \<open>Spec2Isabelle\<close> (this theory): the test of the crate (lines 134 to 155) as
    \<open>test_simple\<close>, and the properties that span the components: the colouring of
    the graphs that a client can build, and of the graph that a panic has left, after
    one call and after a sequence of calls.

  \<^bold>\<open>Correspondence.\<close> A method taking \<open>&mut self\<close> is a function from the graph to
  the new graph; a method that can panic returns \<open>panic + _\<close> (\<open>Inl\<close> the panic, of
  which there are four: indexing past the end, a failed assertion, \<open>unwrap\<close> on
  \<open>None\<close>, an addition that overflows in a build with overflow checks). Vectors are
  lists, bit sets are finite sets. \<open>usize\<close> is \<open>nat\<close> in the theories up to
  \<open>Coloring\<close> and \<open>64 word\<close> in \<open>Usize\<close>; the sentinel \<open>usize::max_value()\<close> is
  the constant \<open>usize_max\<close>. The only arithmetic on \<open>usize\<close> in the crate,
  \<open>connected + 1\<close>, cannot overflow when the table has fewer than \<open>usize_max\<close>
  entries, which is the hypothesis of the theorems about \<open>minimal_coloring\<close>; under
  it the function on words returns what the function on \<open>nat\<close> returns
  (\<open>minimal_coloring64_eq\<close>), so the theorems hold of both builds. The derived
  \<open>PartialEq\<close>, \<open>Ord\<close> and \<open>PartialOrd\<close> of \<open>NodeId\<close> are \<open>eq_NodeId\<close>,
  \<open>cmp_NodeId\<close> and \<open>partial_cmp_NodeId\<close>, which compare the index; \<open>Clone\<close> and
  \<open>Copy\<close> are the identity on the values of the model.

  \<^bold>\<open>What the lemmas show.\<close>
  \<^item> \<open>Graph\<close>: each operation on every branch, panics included; \<open>check_invariants\<close>
    decides \<open>graph_ok\<close>; every operation keeps \<open>graph_inv\<close>, so every reachable graph
    satisfies it and passes the check; idempotence of \<open>add_edge\<close> and \<open>remove_edge\<close>,
    the round trip of adding and removing an edge; \<open>run_ops\<close> refines the abstract
    graph.
  \<^item> \<open>Unwind\<close>: the statements have the outcomes that \<open>Graph\<close> gives to the calls; a
    panic of \<open>remove_edge\<close> leaves a graph that passes the check as it was; a panic
    of \<open>add_edge\<close> leaves it as it was or with one half of the edge; a sequence of
    calls that panics is a prefix that returns, followed by the call that panics
    (\<open>run_ops_stmt_decomp\<close>).
  \<^item> \<open>Elimination\<close>: what \<open>scan\<close> returns; the invariant \<open>elim_inv\<close> and the measure
    \<open>elim_measure\<close> of the outer loop; a rule for proving properties of the loop
    (\<open>elim_loop_rule\<close>); the loop returns, and its stack is an elimination order for
    the final \<open>k\<close>; no order has a smaller bound (\<open>dense_core\<close>).
  \<^item> \<open>Runs\<close>: a step is determined by its source and a reachable state with a living
    node has one; every reachable state satisfies \<open>elim_inv\<close>; every living node is
    on the stack at the end of the run and stays there; the stack and the living nodes
    divide the nodes among them, and \<open>k\<close> and the degrees stay within \<open>usize\<close>; the
    loop with fuel and the loop as a \<open>while\<close> return what \<open>elim_loop\<close> returns.
  \<^item> \<open>Greedy\<close>: each step gives the least free colour; the loop returns on every stack
    that the first phase can leave, with a proper colouring in which every colour below
    the colour of a node is carried by a member of its adjacency set; reading the
    original adjacency sets instead of the working ones gives the same colours.
  \<^item> \<open>Coloring\<close>: \<open>minimal_coloring\<close> returns on every graph that passes the check;
    the colouring is proper and first-fit (a node has a neighbour of every colour
    below its own), every colour is below \<open>k\<close>, \<open>k\<close> is at most the largest
    degree plus one, more than the least degree, one more than the degeneracy of the
    graph and at least the size of every clique.
  \<^item> \<open>Usize\<close>: each operation on words is the operation on \<open>nat\<close> under the reading
    \<open>abs_state\<close> (a functional refinement), in both build profiles.
  \<^item> \<open>Families\<close>: the result on the empty graph, on the edgeless graphs, on the
    complete graphs and on all other graphs in which every node has the same number
    of neighbours; every cycle on at least three nodes gets \<open>k = 3\<close>
    (\<open>minimal_coloring_cycle\<close>), while two colours are enough for a cycle of even
    length (\<open>even_cycle_two_colours\<close>); when every node has at most \<open>d\<close> neighbours
    of a smaller index, \<open>k\<close> is at most \<open>d + 1\<close> (\<open>coloring_k_back_degree\<close>), so the
    stars and the paths of at least two nodes get \<open>k = 2\<close> (\<open>minimal_coloring_star\<close>,
    \<open>minimal_coloring_path\<close>).
  \<^item> This theory: the test of the crate passes in the model (\<open>test_simple_passes\<close>,
    one evaluation on the input that the crate checks); \<open>minimal_coloring\<close> returns
    on the graphs that a client can build; after one call that panics
    (\<open>coloring_after_panic\<close>) and after a sequence of calls from \<open>new\<close> that panics
    (\<open>coloring_after_run\<close>), the graph is either a graph that a client can build, and
    is coloured, or holds one half of an edge, and \<open>minimal_coloring\<close> panics on it;
    in a sequence the calls after the panic are not run.

  \<^bold>\<open>Termination and fuel.\<close> The outer loop of the first phase has no bound in its
  text, so \<open>elim_loop\<close> is a \<open>partial_function\<close> into \<open>option\<close>, \<open>None\<close> standing for
  a run that does not end. That it returns is a theorem: every round decreases
  \<open>elim_measure\<close>, twice the number of living nodes plus one when no living node has a
  degree below \<open>k\<close>. The same measure bounds the number of rounds: \<open>elim_fuel\<close>, the
  loop with a counter, returns the same result with fuel \<open>2 * n + 2\<close> on \<open>n\<close> nodes
  (at most \<open>2 * n + 1\<close> rounds and the last test of the loop condition). The loop
  written with \<open>while_option\<close>, \<open>elim_while\<close>, agrees with \<open>elim_loop\<close> on every
  state, and \<open>elim_reach\<close> is the transition system of its states. The loop on
  words, \<open>elim_loop64\<close>, is a \<open>partial_function\<close> as well; it returns because each of
  its rounds is a round of \<open>elim_loop\<close>. All other loops run over a list and are
  structural recursions.

  \<^bold>\<open>What the model shows about the specification.\<close> The greedy phase reads the working
  graph, not the original one, with the same result (\<open>minimal_coloring_orig_eq\<close>). An
  edgeless graph with at least one node gets \<open>k = 1\<close>, not \<open>0\<close>
  (\<open>minimal_coloring_edgeless\<close>). \<open>k\<close> is an upper bound on the colours used, not
  their number: a graph in which every node has \<open>d\<close> neighbours gets \<open>k = d + 1\<close>
  (\<open>minimal_coloring_regular\<close>), so every cycle gets \<open>k = 3\<close>
  (\<open>minimal_coloring_cycle\<close>), although the cycles of even length have a proper
  colouring with two colours (\<open>even_cycle_two_colours\<close>), and the function itself
  colours the cycle on four nodes with two (\<open>minimal_coloring_cycle4\<close>).
  \<open>add_edge a a\<close> returns even when \<open>a\<close> is not a node
  (\<open>apply_op_panics\<close>). \<open>add_edge a b\<close> with \<open>a\<close> a
  node and \<open>b\<close> none panics after it has put \<open>b\<close> among the
  neighbours of \<open>a\<close>, so the graph that a caller finds after catching the
  panic fails \<open>check_invariants\<close> (\<open>apply_op_stmt_panic\<close>), and
  \<open>minimal_coloring\<close> panics on it (\<open>coloring_after_panic\<close>).

  \<^bold>\<open>The width of \<open>usize\<close>.\<close> \<open>usize_max\<close> is \<open>2\<^sup>6\<^sup>4 - 1\<close>, the value of
  \<open>usize::max_value()\<close> on a 64-bit target. The theories up to \<open>Families\<close> and this
  one use the constant as a bound only: no proof unfolds it but those of the instances
  on graphs of a few nodes, so their theorems read the same for a target of another
  width. Theory \<open>Usize\<close> is about the 64-bit target; a 32-bit target is not covered
  by it.

  \<^bold>\<open>Not modelled.\<close> The internals of \<open>tindex\<close> (bit-level layout of \<open>TBitSet\<close>,
  growth of \<open>TVec\<close>): the crate is not part of the sources, and the model keeps to
  the interface that \<open>src/lib.rs\<close> calls. The derived \<open>Debug\<close> and \<open>Hash\<close>
  implementations: their results are formats of the standard library that the crate
  never reads. Memory exhaustion. Unwinding itself: \<open>Unwind\<close> gives the graph that
  a panic leaves, not the way in which a caller comes to see it. The colours and the
  lengths of the vectors stay in \<open>nat\<close> in \<open>Usize\<close>: the crate does no arithmetic
  on them.

  \<^bold>\<open>Open.\<close> Every function of \<open>src/lib.rs\<close> is modelled. What the library does not
  prove: the number of distinct colours of the result against the chromatic number
  on further families (bipartite graphs and forests in general, beyond the cycles,
  stars and paths of theory \<open>Families\<close>); the cost of a call as a count of set
  operations. A list-based implementation of \<open>TBitSet\<close> could be refined by the
  finite sets used here, but it would be a model of a crate whose text is not among
  the sources.
\<close>

section \<open>The test of the crate\<close>

text \<open>
  \<open>assert_that\<close> is \<open>assert!\<close>; \<open>assert_eq_color\<close> and \<open>assert_ne_color\<close> are
  \<open>assert_eq!\<close> and \<open>assert_ne!\<close> on two entries of \<open>coloring.nodes\<close>, each read
  by indexing. \<open>test_simple\<close> is the test \<open>simple\<close>: it returns \<open>Some (Inr ())\<close>
  when the test passes.
\<close>

definition assert_that :: "bool \<Rightarrow> unit result" where
  "assert_that b = (if b then Inr () else Inl AssertionFailed)"

definition assert_eq_color :: "Coloring \<Rightarrow> NodeId \<Rightarrow> NodeId \<Rightarrow> unit result" where
  "assert_eq_color coloring x y =
     bindr (tv_index (col_nodes coloring) (as_index x)) (\<lambda>cx.
       bindr (tv_index (col_nodes coloring) (as_index y)) (\<lambda>cy. assert_that (cx = cy)))"

definition assert_ne_color :: "Coloring \<Rightarrow> NodeId \<Rightarrow> NodeId \<Rightarrow> unit result" where
  "assert_ne_color coloring x y =
     bindr (tv_index (col_nodes coloring) (as_index x)) (\<lambda>cx.
       bindr (tv_index (col_nodes coloring) (as_index y)) (\<lambda>cy. assert_that (cx \<noteq> cy)))"

definition test_simple :: "unit result option" where
  "test_simple =
     (let g = new;
          (a, g) = add_node g;
          (b, g) = add_node g;
          (c, g) = add_node g;
          (d, g) = add_node g
      in case bindr (add_edge a c g) (\<lambda>g. bindr (add_edge a d g) (\<lambda>g.
              bindr (add_edge b c g) (\<lambda>g. bindr (add_edge b d g) (add_edge c d)))) of
           Inl e \<Rightarrow> Some (Inl e)
         | Inr g \<Rightarrow>
            (case minimal_coloring g of
               None \<Rightarrow> None
             | Some (Inl e) \<Rightarrow> Some (Inl e)
             | Some (Inr coloring) \<Rightarrow>
                 Some (bindr (assert_that (col_k coloring = 3)) (\<lambda>_.
                       bindr (assert_eq_color coloring a b) (\<lambda>_.
                       bindr (assert_ne_color coloring a c) (\<lambda>_.
                       bindr (assert_ne_color coloring a d) (\<lambda>_.
                       assert_ne_color coloring c d)))))))"

section \<open>The scenarios\<close>

text \<open>
  The test \<open>simple\<close> of the crate passes in the model: on the graph with the nodes
  \<open>a\<close>, \<open>b\<close>, \<open>c\<close>, \<open>d\<close> and the edges \<open>a-c\<close>, \<open>a-d\<close>, \<open>b-c\<close>, \<open>b-d\<close>, \<open>c-d\<close>
  no call panics, \<open>k\<close> is \<open>3\<close>, \<open>a\<close> and \<open>b\<close> get the same colour, and the colours
  of \<open>a\<close>, \<open>c\<close> and \<open>d\<close> are pairwise distinct. It is one run of the definitions on
  the input that the crate itself checks.
\<close>

lemma test_simple_passes: "test_simple = Some (Inr ())"
  by code_simp

text \<open>
  C30. Every graph that a client builds from \<open>new\<close> with \<open>add_node\<close>, \<open>add_edge\<close>
  and \<open>remove_edge\<close> is coloured: \<open>minimal_coloring\<close> returns one colour per node,
  and the two ends of every edge get distinct colours below \<open>k\<close>.
\<close>

theorem reachable_coloring:
  assumes "reachable g" and "length (nodes g) < usize_max"
  shows "\<exists>c. minimal_coloring g = Some (Inr c) \<and> length (col_nodes c) = length (nodes g) \<and>
    (\<forall>a b. b \<in> neighbours g a \<longrightarrow>
       col_nodes c ! as_index a \<noteq> col_nodes c ! as_index b \<and>
       col_nodes c ! as_index a < col_k c)"
proof -
  from reachable_inv [OF assms(1)] have ok: "graph_ok g" and free: "loop_free g"
    by (simp_all add: graph_inv_def)
  from ok assms(2) show ?thesis
  proof (cases rule: minimal_coloring_facts)
    case c: (facts c)
    have "col_nodes c ! as_index a \<noteq> col_nodes c ! as_index b \<and>
        col_nodes c ! as_index a < col_k c"
      if "b \<in> neighbours g a" for a b
    proof -
      from that free have "a \<noteq> b" by (auto simp: loop_free_def)
      moreover from that have "as_index a < length (nodes g)"
        by (auto simp: neighbours_def valid_node_def split: if_splits)
      ultimately show ?thesis using c(3,4) that by simp
    qed
    with c(1,2) show ?thesis by blast
  qed
qed

text \<open>
  The colouring of the graph that a panicking call has left, for every graph that
  passes the check.
\<close>

lemma panic_coloring:
  assumes ok: "graph_ok g" and small: "length (nodes g) < usize_max"
    and stmt: "apply_op_stmt op g = (Some e, g')"
  shows "if \<exists>a b. op = AddEdge a b \<and> valid_node g a
    then minimal_coloring g' = Some (Inl AssertionFailed)
    else g' = g \<and> (\<exists>c. minimal_coloring g' = Some (Inr c))"
  using ok stmt
proof (cases rule: apply_op_stmt_panic_cases)
  case (Half a b)
  with half_edge_not_ok(3) [of g a b] show ?thesis
    by (auto simp: minimal_coloring_def check_invariants_decides)
next
  case Same
  from minimal_coloring_run [OF ok small] Same show ?thesis
    by (auto simp: coloring_run_def)
qed

text \<open>
  C33. Colouring a graph after a panic has been caught. When a call of the interface
  panics on a graph that a client has built, and the client goes on with the graph
  that the call has left, \<open>minimal_coloring\<close> panics with a failed assertion after
  \<open>add_edge a b\<close> with \<open>a\<close> a node, and returns a colouring of the unchanged graph
  after every other panic.
\<close>

theorem coloring_after_panic:
  assumes "reachable g" and "length (nodes g) < usize_max"
    and "apply_op_stmt op g = (Some e, g')"
  shows "if \<exists>a b. op = AddEdge a b \<and> valid_node g a
    then minimal_coloring g' = Some (Inl AssertionFailed)
    else g' = g \<and> (\<exists>c. minimal_coloring g' = Some (Inr c))"
proof -
  from reachable_inv [OF assms(1)] have "graph_ok g" by (simp add: graph_inv_def)
  then show ?thesis using assms(2,3) by (rule panic_coloring)
qed

text \<open>
  C25. Colouring after a sequence of calls that panics. When a client runs calls of the
  interface on the empty graph and one of them panics, the calls before it have built
  a graph without a panic, the calls after it are not run, and the graph that is left
  is the one that the panicking call has left: with \<open>add_edge a b\<close> on a node \<open>a\<close>
  it fails the check, and \<open>minimal_coloring\<close> panics on it with a failed assertion;
  after every other panic it is the graph that the calls before have built, and
  \<open>minimal_coloring\<close> returns a colouring of it.
\<close>

theorem coloring_after_run:
  assumes run: "run_ops_stmt ops new = (Some e, g')" and small: "length (nodes g') < usize_max"
  shows "\<exists>pre op post g. ops = pre @ op # post \<and> run_ops pre new = Inr g \<and> reachable g \<and>
    apply_op_stmt op g = (Some e, g') \<and>
    (if \<exists>a b. op = AddEdge a b \<and> valid_node g a
     then minimal_coloring g' = Some (Inl AssertionFailed)
     else g' = g \<and> (\<exists>c. minimal_coloring g' = Some (Inr c)))"
proof -
  from run_ops_stmt_decomp [OF run] obtain pre op post g
    where ops: "ops = pre @ op # post" and pre: "run_ops pre new = Inr g"
      and stmt: "apply_op_stmt op g = (Some e, g')"
    by auto
  from reachable.init pre have reach: "reachable g" by (rule reachable_run_ops)
  then have ok: "graph_ok g" using reachable_inv [of g] by (simp add: graph_inv_def)
  from apply_op_stmt_panic_length [OF ok stmt] small
  have "length (nodes g) < usize_max" by simp
  from panic_coloring [OF ok this stmt] ops pre reach stmt show ?thesis by blast
qed

theorem reachable_coloring_witness:
  "reachable simple_graph \<and> length (nodes simple_graph) < usize_max \<and>
   (\<exists>c. minimal_coloring simple_graph = Some (Inr c) \<and>
      length (col_nodes c) = length (nodes simple_graph) \<and>
      (\<forall>a b. b \<in> neighbours simple_graph a \<longrightarrow>
         col_nodes c ! as_index a \<noteq> col_nodes c ! as_index b \<and>
         col_nodes c ! as_index a < col_k c))"
  using reachable_simple_graph simple_graph_small
    reachable_coloring [OF reachable_simple_graph simple_graph_small]
  by blast

theorem coloring_after_panic_witness:
  "reachable simple_graph \<and> length (nodes simple_graph) < usize_max \<and>
   apply_op_stmt (AddEdge (NodeId 0) (NodeId 7)) simple_graph =
     (Some IndexOutOfBounds, \<lparr>nodes =
       [{|NodeId 2, NodeId 3, NodeId 7|}, {|NodeId 2, NodeId 3|},
        {|NodeId 0, NodeId 1, NodeId 3|}, {|NodeId 0, NodeId 1, NodeId 2|}]\<rparr>) \<and>
   minimal_coloring \<lparr>nodes =
       [{|NodeId 2, NodeId 3, NodeId 7|}, {|NodeId 2, NodeId 3|},
        {|NodeId 0, NodeId 1, NodeId 3|}, {|NodeId 0, NodeId 1, NodeId 2|}]\<rparr> =
     Some (Inl AssertionFailed)"
proof -
  have stmt: "apply_op_stmt (AddEdge (NodeId 0) (NodeId 7)) simple_graph =
      (Some IndexOutOfBounds, \<lparr>nodes =
       [{|NodeId 2, NodeId 3, NodeId 7|}, {|NodeId 2, NodeId 3|},
        {|NodeId 0, NodeId 1, NodeId 3|}, {|NodeId 0, NodeId 1, NodeId 2|}]\<rparr>)"
    by code_simp
  have "valid_node simple_graph (NodeId 0)"
    by (simp add: valid_node_def simple_graph_def)
  with coloring_after_panic [OF reachable_simple_graph simple_graph_small stmt]
    reachable_simple_graph simple_graph_small stmt
  show ?thesis by auto
qed

theorem coloring_after_run_witness:
  "run_ops_stmt (simple_ops @ [AddEdge (NodeId 0) (NodeId 7), AddNode]) new =
     (Some IndexOutOfBounds, \<lparr>nodes =
       [{|NodeId 2, NodeId 3, NodeId 7|}, {|NodeId 2, NodeId 3|},
        {|NodeId 0, NodeId 1, NodeId 3|}, {|NodeId 0, NodeId 1, NodeId 2|}]\<rparr>) \<and>
   length (nodes \<lparr>nodes =
       [{|NodeId 2, NodeId 3, NodeId 7|}, {|NodeId 2, NodeId 3|},
        {|NodeId 0, NodeId 1, NodeId 3|}, {|NodeId 0, NodeId 1, NodeId 2|}]\<rparr>) < usize_max \<and>
   (\<exists>pre op post g. simple_ops @ [AddEdge (NodeId 0) (NodeId 7), AddNode] = pre @ op # post \<and>
      run_ops pre new = Inr g \<and> reachable g \<and>
      apply_op_stmt op g = (Some IndexOutOfBounds, \<lparr>nodes =
       [{|NodeId 2, NodeId 3, NodeId 7|}, {|NodeId 2, NodeId 3|},
        {|NodeId 0, NodeId 1, NodeId 3|}, {|NodeId 0, NodeId 1, NodeId 2|}]\<rparr>) \<and>
      (if \<exists>a b. op = AddEdge a b \<and> valid_node g a
       then minimal_coloring \<lparr>nodes =
         [{|NodeId 2, NodeId 3, NodeId 7|}, {|NodeId 2, NodeId 3|},
          {|NodeId 0, NodeId 1, NodeId 3|}, {|NodeId 0, NodeId 1, NodeId 2|}]\<rparr> =
           Some (Inl AssertionFailed)
       else \<lparr>nodes =
         [{|NodeId 2, NodeId 3, NodeId 7|}, {|NodeId 2, NodeId 3|},
          {|NodeId 0, NodeId 1, NodeId 3|}, {|NodeId 0, NodeId 1, NodeId 2|}]\<rparr> = g \<and>
         (\<exists>c. minimal_coloring \<lparr>nodes =
           [{|NodeId 2, NodeId 3, NodeId 7|}, {|NodeId 2, NodeId 3|},
            {|NodeId 0, NodeId 1, NodeId 3|}, {|NodeId 0, NodeId 1, NodeId 2|}]\<rparr> =
             Some (Inr c)))) \<and>
   minimal_coloring \<lparr>nodes =
       [{|NodeId 2, NodeId 3, NodeId 7|}, {|NodeId 2, NodeId 3|},
        {|NodeId 0, NodeId 1, NodeId 3|}, {|NodeId 0, NodeId 1, NodeId 2|}]\<rparr> =
     Some (Inl AssertionFailed)"
proof -
  let ?g' = "\<lparr>nodes =
       [{|NodeId 2, NodeId 3, NodeId 7|}, {|NodeId 2, NodeId 3|},
        {|NodeId 0, NodeId 1, NodeId 3|}, {|NodeId 0, NodeId 1, NodeId 2|}]\<rparr>"
  have run: "run_ops_stmt (simple_ops @ [AddEdge (NodeId 0) (NodeId 7), AddNode]) new =
      (Some IndexOutOfBounds, ?g')"
    by code_simp
  have small: "length (nodes ?g') < usize_max" by (simp add: usize_max_def)
  have "minimal_coloring ?g' = Some (Inl AssertionFailed)" by code_simp
  with coloring_after_run [OF run small] run small show ?thesis by (intro conjI)
qed

end
